theory Spec2Isabelle
  imports Main "HOL-Library.Word"
begin

unbundle bit_operations_syntax

section \<open>The write batch of db/write\_batch.cc\<close>

text \<open>
  A batch is a byte string \<open>rep\<close> (the member \<open>rep_\<close>; member names lose their
  trailing underscore): an 8-byte sequence number, a 4-byte count and the
  records, each a tag byte followed by varint-prefixed byte runs. C++ \<open>char\<close> is an
  8-bit word, \<open>uint32_t\<close> a 32-bit word, \<open>uint64_t\<close> a 64-bit word. C++ \<open>int\<close>
  (the type of \<open>Count\<close>, of \<open>SavePoint::count\<close> and of the local \<open>found\<close>) is a HOL
  \<open>int\<close>; the conversions between \<open>int\<close> and \<open>uint32_t\<close> are written out
  (\<open>sint\<close> and \<open>word_of_int\<close>), so a count is stored modulo \<open>2 ^ 32\<close>.
  Assertions are compiled out (NDEBUG): only the statements that run in a release build
  are modelled.
\<close>

type_synonym byte = "8 word"
type_synonym bytes = "byte list"

text \<open>
  The statuses this file creates, each with its message, and \<open>Other\<close> for any further
  status that a handler of the caller's may return.
\<close>

datatype Status = OK | NotFound | Corruption string | InvalidArgument string | Other string

fun ok :: "Status \<Rightarrow> bool" where
  "ok OK = True"
| "ok _ = False"

text \<open>
  Reading index 0 of an empty \<open>Slice\<close> is outside the contract of \<open>Slice::operator[]\<close>
  (an out-of-range read). The model makes that outcome a value of its own.
\<close>

datatype fault = SliceIndexOutOfRange

subsection \<open>Content flags\<close>

definition DEFERRED :: "32 word" where "DEFERRED = 1"
definition HAS_PUT :: "32 word" where "HAS_PUT = 2"
definition HAS_DELETE :: "32 word" where "HAS_DELETE = 4"
definition HAS_SINGLE_DELETE :: "32 word" where "HAS_SINGLE_DELETE = 8"
definition HAS_MERGE :: "32 word" where "HAS_MERGE = 16"

subsection \<open>Record tags\<close>

text \<open>
  The tag bytes are the enumerators of \<open>ValueType\<close> in db/dbformat.h, which is not part
  of the sources at hand, and the specification names them without giving their values.
  They are a parameter of every function that reads or writes a tag: a table \<open>T\<close> of
  nine bytes. A \<open>switch\<close> over the tags is an \<open>if\<close> chain in the order of its labels.
\<close>

record ValueType =
  kTypeDeletion :: byte
  kTypeValue :: byte
  kTypeMerge :: byte
  kTypeLogData :: byte
  kTypeColumnFamilyDeletion :: byte
  kTypeColumnFamilyValue :: byte
  kTypeColumnFamilyMerge :: byte
  kTypeSingleDeletion :: byte
  kTypeColumnFamilySingleDeletion :: byte

text \<open>A table of nine different bytes, used where a theorem is run on a concrete batch.\<close>

definition sample_tags :: ValueType where
  "sample_tags = \<lparr> kTypeDeletion = 0, kTypeValue = 1, kTypeMerge = 2, kTypeLogData = 3,
     kTypeColumnFamilyDeletion = 4, kTypeColumnFamilyValue = 5, kTypeColumnFamilyMerge = 6,
     kTypeSingleDeletion = 7, kTypeColumnFamilySingleDeletion = 8 \<rparr>"

subsection \<open>Codec primitives of util/coding.h\<close>

text \<open>
  Modelled from the spec: util/coding.h is not part of the sources at hand. Fixed32 is
  "unsigned little-endian at known offsets". The decoder reads the four bytes at the
  start of its argument, as the C++ reads four bytes from a pointer; the caller owns
  the bound.
\<close>

definition EncodeFixed32 :: "32 word \<Rightarrow> bytes" where
  "EncodeFixed32 v = [ucast v, ucast (drop_bit 8 v), ucast (drop_bit 16 v), ucast (drop_bit 24 v)]"

definition DecodeFixed32 :: "bytes \<Rightarrow> 32 word" where
  "DecodeFixed32 p = ucast (p ! 0) OR push_bit 8 (ucast (p ! 1)) OR
     push_bit 16 (ucast (p ! 2)) OR push_bit 24 (ucast (p ! 3))"

text \<open>
  Modelled from the spec: Fixed64, "unsigned little-endian", of the missing
  util/coding.h; used for the sequence field in bytes 0..8 (\<open>Sequence\<close> and
  \<open>SetSequence\<close>).
\<close>

definition DecodeFixed64 :: "bytes \<Rightarrow> 64 word" where
  "DecodeFixed64 p = ucast (p ! 0) OR push_bit 8 (ucast (p ! 1)) OR
     push_bit 16 (ucast (p ! 2)) OR push_bit 24 (ucast (p ! 3)) OR
     push_bit 32 (ucast (p ! 4)) OR push_bit 40 (ucast (p ! 5)) OR
     push_bit 48 (ucast (p ! 6)) OR push_bit 56 (ucast (p ! 7))"

definition EncodeFixed64 :: "64 word \<Rightarrow> bytes" where
  "EncodeFixed64 v = [ucast v, ucast (drop_bit 8 v), ucast (drop_bit 16 v), ucast (drop_bit 24 v),
     ucast (drop_bit 32 v), ucast (drop_bit 40 v), ucast (drop_bit 48 v), ucast (drop_bit 56 v)]"

text \<open>
  Modelled from the spec: the varint32 of the missing util/coding.h, "LEB128 over 32
  bits, 1-5 bytes", "continuation bit in MSB, little-endian group order".
\<close>

function varint32_bytes :: "nat \<Rightarrow> bytes" where
  "varint32_bytes n =
     (if n < 128 then [of_nat n] else of_nat (n mod 128 + 128) # varint32_bytes (n div 128))"
  by pat_completeness auto
termination
  by (relation "measure id") auto

definition PutVarint32 :: "bytes \<Rightarrow> 32 word \<Rightarrow> bytes" where
  "PutVarint32 dst v = dst @ varint32_bytes (unat v)"

text \<open>
  Modelled from the spec: "Decode fails if the buffer ends mid-varint or if more than
  five continuation bytes are present"; a varint32 is "capped at 5 bytes", so the byte
  at shift 28 is the last one that may be read. \<open>None\<close> is the C++ \<open>false\<close>; on success
  the rest of the input is returned with the value.
\<close>

fun GetVarint32Ptr :: "nat \<Rightarrow> bytes \<Rightarrow> (32 word \<times> bytes) option" where
  "GetVarint32Ptr shift [] = None"
| "GetVarint32Ptr shift (b # p) =
     (if 28 < shift then None
      else if b AND 128 \<noteq> 0 then
        (case GetVarint32Ptr (shift + 7) p of
           None \<Rightarrow> None
         | Some (v, q) \<Rightarrow> Some (push_bit shift (ucast (b AND 127)) OR v, q))
      else Some (push_bit shift (ucast b), p))"

definition GetVarint32 :: "bytes \<Rightarrow> (32 word \<times> bytes) option" where
  "GetVarint32 input = GetVarint32Ptr 0 input"

text \<open>
  Modelled from the spec: "Length-prefixed slice: varint32 length followed by that many
  raw bytes. Decode fails if length exceeds remaining input." The length written is
  the size cast to \<open>uint32_t\<close>. The gather-list form writes the total length and then
  every part.
\<close>

definition PutLengthPrefixedSlice :: "bytes \<Rightarrow> bytes \<Rightarrow> bytes" where
  "PutLengthPrefixedSlice dst v = PutVarint32 dst (of_nat (length v)) @ v"

definition PutLengthPrefixedSliceParts :: "bytes \<Rightarrow> bytes list \<Rightarrow> bytes" where
  "PutLengthPrefixedSliceParts dst parts =
     PutVarint32 dst (of_nat (sum_list (map length parts))) @ concat parts"

definition GetLengthPrefixedSlice :: "bytes \<Rightarrow> (bytes \<times> bytes) option" where
  "GetLengthPrefixedSlice input =
     (case GetVarint32 input of
        None \<Rightarrow> None
      | Some (len, rest) \<Rightarrow>
          if unat len \<le> length rest then Some (take (unat len) rest, drop (unat len) rest)
          else None)"

declare varint32_bytes.simps [simp del]

subsection \<open>The batch and its save-points\<close>

text \<open>
  The member \<open>save_points\<close> is a pointer to a heap-allocated \<open>SavePoints\<close> object
  (\<open>nullptr\<close> is \<open>None\<close>). The heap is the list of the \<open>SavePoints\<close> objects
  allocated so far; an address is an index into it and \<open>new\<close> appends. A
  \<open>std::stack\<close> is a list with its top at the head.
\<close>

definition kHeader :: nat where "kHeader = 12"

record SavePoint =
  sp_size :: nat
  sp_count :: int
  sp_content_flags :: "32 word"

type_synonym SavePoints = "SavePoint list"
type_synonym heap = "SavePoints list"

record WriteBatch =
  save_points :: "nat option"
  content_flags :: "32 word"
  rep :: bytes

text \<open>\<open>std::string::resize\<close>: truncate, or pad with zero bytes.\<close>

definition resize :: "bytes \<Rightarrow> nat \<Rightarrow> bytes" where
  "resize s n = take n s @ replicate (n - length s) 0"

text \<open>\<open>WriteBatch(size_t reserved_bytes)\<close>; the reservation does not show in the value.\<close>

definition WriteBatch_new :: "nat \<Rightarrow> WriteBatch" where
  "WriteBatch_new reserved_bytes =
     \<lparr> save_points = None, content_flags = 0, rep = resize [] kHeader \<rparr>"

text \<open>\<open>WriteBatch(const std::string& rep)\<close>.\<close>

definition WriteBatch_of_string :: "bytes \<Rightarrow> WriteBatch" where
  "WriteBatch_of_string r = \<lparr> save_points = None, content_flags = DEFERRED, rep = r \<rparr>"

text \<open>
  \<open>WriteBatch(const WriteBatch& src)\<close>: the member initialiser
  \<open>save_points_(src.save_points_)\<close> copies the pointer; the heap is not touched.
\<close>

definition WriteBatch_copy :: "WriteBatch \<Rightarrow> WriteBatch" where
  "WriteBatch_copy src =
     \<lparr> save_points = save_points src, content_flags = content_flags src, rep = rep src \<rparr>"

text \<open>The stack a batch sees through its pointer (empty for \<open>nullptr\<close>).\<close>

definition stack_of :: "heap \<Rightarrow> WriteBatch \<Rightarrow> SavePoints" where
  "stack_of h b = (case save_points b of None \<Rightarrow> [] | Some a \<Rightarrow> h ! a)"

text \<open>A pointer that is not null points into the heap.\<close>

definition valid_ptr :: "heap \<Rightarrow> WriteBatch \<Rightarrow> bool" where
  "valid_ptr h b = (case save_points b of None \<Rightarrow> True | Some a \<Rightarrow> a < length h)"

definition Clear :: "heap \<Rightarrow> WriteBatch \<Rightarrow> heap \<times> WriteBatch" where
  "Clear h b =
     (let b1 = b\<lparr> rep := resize [] kHeader, content_flags := 0 \<rparr>
      in case save_points b of
           None \<Rightarrow> (h, b1)
         | Some a \<Rightarrow> (h[a := []], b1))"

text \<open>
  \<open>Count\<close> returns the \<open>uint32_t\<close> at offset 8 as an \<open>int\<close>; \<open>SetCount\<close> writes an
  \<open>int\<close> there as a \<open>uint32_t\<close>. Both address \<open>rep[8..12]\<close> without a check: the
  batch is at least \<open>kHeader\<close> bytes long wherever they are called.
\<close>

definition Count :: "WriteBatch \<Rightarrow> int" where
  "Count b = sint (DecodeFixed32 (drop 8 (rep b)))"

definition SetCount :: "WriteBatch \<Rightarrow> int \<Rightarrow> WriteBatch" where
  "SetCount b n = b\<lparr> rep := take 8 (rep b) @ EncodeFixed32 (word_of_int n) @ drop 12 (rep b) \<rparr>"

definition Sequence :: "WriteBatch \<Rightarrow> 64 word" where
  "Sequence b = DecodeFixed64 (rep b)"

definition SetSequence :: "WriteBatch \<Rightarrow> 64 word \<Rightarrow> WriteBatch" where
  "SetSequence b seq = b\<lparr> rep := EncodeFixed64 seq @ drop 8 (rep b) \<rparr>"

text \<open>
  Modelled from the spec: \<open>GetDataSize\<close> is declared in the header
  include/rocksdb/write\_batch.h, which is not part of the sources at hand; a save-point
  records "buffer.len".
\<close>

definition GetDataSize :: "WriteBatch \<Rightarrow> nat" where
  "GetDataSize b = length (rep b)"

subsection \<open>Append operations\<close>

text \<open>
  \<open>WriteBatchInternal::Put\<close>, \<open>Delete\<close>, \<open>SingleDelete\<close> and \<open>Merge\<close>, each in the
  \<open>Slice\<close> form and in the \<open>SliceParts\<close> form, and \<open>WriteBatch::PutLogData\<close>.
\<close>

definition tag_and_cf :: "bytes \<Rightarrow> 32 word \<Rightarrow> byte \<Rightarrow> byte \<Rightarrow> bytes" where
  "tag_and_cf r column_family_id plain_tag cf_tag =
     (if column_family_id = 0 then r @ [plain_tag]
      else PutVarint32 (r @ [cf_tag]) column_family_id)"

definition set_flag :: "WriteBatch \<Rightarrow> 32 word \<Rightarrow> WriteBatch" where
  "set_flag b f = b\<lparr> content_flags := content_flags b OR f \<rparr>"

definition Put :: "ValueType \<Rightarrow> WriteBatch \<Rightarrow> 32 word \<Rightarrow> bytes \<Rightarrow> bytes \<Rightarrow> WriteBatch" where
  "Put T b column_family_id key val =
     (let b1 = SetCount b (Count b + 1);
          r1 = tag_and_cf (rep b1) column_family_id (kTypeValue T) (kTypeColumnFamilyValue T);
          r2 = PutLengthPrefixedSlice r1 key;
          r3 = PutLengthPrefixedSlice r2 val
      in set_flag (b1\<lparr> rep := r3 \<rparr>) HAS_PUT)"

definition PutParts ::
  "ValueType \<Rightarrow> WriteBatch \<Rightarrow> 32 word \<Rightarrow> bytes list \<Rightarrow> bytes list \<Rightarrow> WriteBatch" where
  "PutParts T b column_family_id key val =
     (let b1 = SetCount b (Count b + 1);
          r1 = tag_and_cf (rep b1) column_family_id (kTypeValue T) (kTypeColumnFamilyValue T);
          r2 = PutLengthPrefixedSliceParts r1 key;
          r3 = PutLengthPrefixedSliceParts r2 val
      in set_flag (b1\<lparr> rep := r3 \<rparr>) HAS_PUT)"

definition Delete :: "ValueType \<Rightarrow> WriteBatch \<Rightarrow> 32 word \<Rightarrow> bytes \<Rightarrow> WriteBatch" where
  "Delete T b column_family_id key =
     (let b1 = SetCount b (Count b + 1);
          r1 = tag_and_cf (rep b1) column_family_id (kTypeDeletion T)
                 (kTypeColumnFamilyDeletion T);
          r2 = PutLengthPrefixedSlice r1 key
      in set_flag (b1\<lparr> rep := r2 \<rparr>) HAS_DELETE)"

definition DeleteParts :: "ValueType \<Rightarrow> WriteBatch \<Rightarrow> 32 word \<Rightarrow> bytes list \<Rightarrow> WriteBatch" where
  "DeleteParts T b column_family_id key =
     (let b1 = SetCount b (Count b + 1);
          r1 = tag_and_cf (rep b1) column_family_id (kTypeDeletion T)
                 (kTypeColumnFamilyDeletion T);
          r2 = PutLengthPrefixedSliceParts r1 key
      in set_flag (b1\<lparr> rep := r2 \<rparr>) HAS_DELETE)"

definition SingleDelete :: "ValueType \<Rightarrow> WriteBatch \<Rightarrow> 32 word \<Rightarrow> bytes \<Rightarrow> WriteBatch" where
  "SingleDelete T b column_family_id key =
     (let b1 = SetCount b (Count b + 1);
          r1 = tag_and_cf (rep b1) column_family_id (kTypeSingleDeletion T)
                 (kTypeColumnFamilySingleDeletion T);
          r2 = PutLengthPrefixedSlice r1 key
      in set_flag (b1\<lparr> rep := r2 \<rparr>) HAS_SINGLE_DELETE)"

definition SingleDeleteParts ::
  "ValueType \<Rightarrow> WriteBatch \<Rightarrow> 32 word \<Rightarrow> bytes list \<Rightarrow> WriteBatch" where
  "SingleDeleteParts T b column_family_id key =
     (let b1 = SetCount b (Count b + 1);
          r1 = tag_and_cf (rep b1) column_family_id (kTypeSingleDeletion T)
                 (kTypeColumnFamilySingleDeletion T);
          r2 = PutLengthPrefixedSliceParts r1 key
      in set_flag (b1\<lparr> rep := r2 \<rparr>) HAS_SINGLE_DELETE)"

definition Merge :: "ValueType \<Rightarrow> WriteBatch \<Rightarrow> 32 word \<Rightarrow> bytes \<Rightarrow> bytes \<Rightarrow> WriteBatch" where
  "Merge T b column_family_id key val =
     (let b1 = SetCount b (Count b + 1);
          r1 = tag_and_cf (rep b1) column_family_id (kTypeMerge T) (kTypeColumnFamilyMerge T);
          r2 = PutLengthPrefixedSlice r1 key;
          r3 = PutLengthPrefixedSlice r2 val
      in set_flag (b1\<lparr> rep := r3 \<rparr>) HAS_MERGE)"

definition MergeParts ::
  "ValueType \<Rightarrow> WriteBatch \<Rightarrow> 32 word \<Rightarrow> bytes list \<Rightarrow> bytes list \<Rightarrow> WriteBatch" where
  "MergeParts T b column_family_id key val =
     (let b1 = SetCount b (Count b + 1);
          r1 = tag_and_cf (rep b1) column_family_id (kTypeMerge T) (kTypeColumnFamilyMerge T);
          r2 = PutLengthPrefixedSliceParts r1 key;
          r3 = PutLengthPrefixedSliceParts r2 val
      in set_flag (b1\<lparr> rep := r3 \<rparr>) HAS_MERGE)"

definition PutLogData :: "ValueType \<Rightarrow> WriteBatch \<Rightarrow> bytes \<Rightarrow> WriteBatch" where
  "PutLogData T b blob = b\<lparr> rep := PutLengthPrefixedSlice (rep b @ [kTypeLogData T]) blob \<rparr>"

subsection \<open>Save-points\<close>

definition SetSavePoint :: "heap \<Rightarrow> WriteBatch \<Rightarrow> heap \<times> WriteBatch" where
  "SetSavePoint h b =
     (let (h1, b1) = (case save_points b of
                        None \<Rightarrow> (h @ [[]], b\<lparr> save_points := Some (length h) \<rparr>)
                      | Some a \<Rightarrow> (h, b));
          a = the (save_points b1);
          savepoint = \<lparr> sp_size = GetDataSize b1, sp_count = Count b1,
                        sp_content_flags = content_flags b1 \<rparr>
      in (h1[a := savepoint # h1 ! a], b1))"

definition RollbackToSavePoint :: "heap \<Rightarrow> WriteBatch \<Rightarrow> Status \<times> heap \<times> WriteBatch" where
  "RollbackToSavePoint h b =
     (case save_points b of
        None \<Rightarrow> (NotFound, h, b)
      | Some a \<Rightarrow>
          if length (h ! a) = 0 then (NotFound, h, b)
          else
            let savepoint = hd (h ! a);
                h1 = h[a := tl (h ! a)]
            in if sp_size savepoint = length (rep b) then (OK, h1, b)
               else if sp_size savepoint = 0 then
                 (let (h2, b2) = Clear h1 b in (OK, h2, b2))
               else
                 (let b1 = b\<lparr> rep := resize (rep b) (sp_size savepoint) \<rparr>;
                      b2 = SetCount b1 (sp_count savepoint);
                      b3 = b2\<lparr> content_flags := sp_content_flags savepoint \<rparr>
                  in (OK, h1, b3)))"

subsection \<open>Engine-private operations\<close>

definition SetContents :: "WriteBatch \<Rightarrow> bytes \<Rightarrow> WriteBatch" where
  "SetContents b contents = b\<lparr> rep := contents, content_flags := DEFERRED \<rparr>"

text \<open>\<open>WriteBatchInternal::Append\<close>; \<open>dst\<close> and \<open>src\<close> are two objects.\<close>

definition Append :: "WriteBatch \<Rightarrow> WriteBatch \<Rightarrow> WriteBatch" where
  "Append dst src =
     (let d1 = SetCount dst (Count dst + Count src);
          d2 = d1\<lparr> rep := rep d1 @ drop kHeader (rep src) \<rparr>
      in d2\<lparr> content_flags := content_flags d2 OR content_flags src \<rparr>)"

subsection \<open>Decoding one record\<close>

text \<open>
  \<open>ReadRecordFromWriteBatch\<close> returns a \<open>Status\<close> and writes through its pointer
  arguments. The model returns \<open>ReadOK\<close> with the advanced input, the tag, the column
  family and the three slices when the status is OK, and \<open>ReadFailed\<close> with the status
  otherwise (the only caller returns at once then). A slice the function does not write
  keeps the value passed in. The function indexes \<open>(*input)[0]\<close> before any test.
  The fall-through of the \<open>switch\<close> is the shared tail \<open>read_key_value\<close> or \<open>read_key\<close>.
\<close>

datatype read_outcome =
  ReadFailed Status
| ReadOK bytes byte "32 word" bytes bytes bytes

definition read_key_value :: "string \<Rightarrow> byte \<Rightarrow> bytes \<Rightarrow> 32 word \<Rightarrow> bytes \<Rightarrow> read_outcome" where
  "read_key_value msg tag blob column_family input =
     (case GetLengthPrefixedSlice input of
        None \<Rightarrow> ReadFailed (Corruption msg)
      | Some (key, input1) \<Rightarrow>
          (case GetLengthPrefixedSlice input1 of
             None \<Rightarrow> ReadFailed (Corruption msg)
           | Some (val, input2) \<Rightarrow> ReadOK input2 tag column_family key val blob))"

definition read_key ::
  "string \<Rightarrow> byte \<Rightarrow> bytes \<Rightarrow> bytes \<Rightarrow> 32 word \<Rightarrow> bytes \<Rightarrow> read_outcome" where
  "read_key msg tag val blob column_family input =
     (case GetLengthPrefixedSlice input of
        None \<Rightarrow> ReadFailed (Corruption msg)
      | Some (key, input1) \<Rightarrow> ReadOK input1 tag column_family key val blob)"

definition read_cf ::
  "string \<Rightarrow> bytes \<Rightarrow> (32 word \<Rightarrow> bytes \<Rightarrow> read_outcome) \<Rightarrow> read_outcome" where
  "read_cf msg input rest =
     (case GetVarint32 input of
        None \<Rightarrow> ReadFailed (Corruption msg)
      | Some (column_family, input1) \<Rightarrow> rest column_family input1)"

definition ReadRecordFromWriteBatch ::
  "ValueType \<Rightarrow> bytes \<Rightarrow> bytes \<Rightarrow> bytes \<Rightarrow> bytes \<Rightarrow> fault + read_outcome" where
  "ReadRecordFromWriteBatch T input key val blob =
     (case input of
        [] \<Rightarrow> Inl SliceIndexOutOfRange
      | tag # input0 \<Rightarrow> Inr
         (if tag = kTypeColumnFamilyValue T then
            read_cf ''bad WriteBatch Put'' input0 (read_key_value ''bad WriteBatch Put'' tag blob)
          else if tag = kTypeValue T then
            read_key_value ''bad WriteBatch Put'' tag blob 0 input0
          else if tag = kTypeColumnFamilyDeletion T \<or> tag = kTypeColumnFamilySingleDeletion T then
            read_cf ''bad WriteBatch Delete'' input0 (read_key ''bad WriteBatch Delete'' tag val blob)
          else if tag = kTypeDeletion T \<or> tag = kTypeSingleDeletion T then
            read_key ''bad WriteBatch Delete'' tag val blob 0 input0
          else if tag = kTypeColumnFamilyMerge T then
            read_cf ''bad WriteBatch Merge'' input0 (read_key_value ''bad WriteBatch Merge'' tag blob)
          else if tag = kTypeMerge T then
            read_key_value ''bad WriteBatch Merge'' tag blob 0 input0
          else if tag = kTypeLogData T then
            (case GetLengthPrefixedSlice input0 of
               None \<Rightarrow> ReadFailed (Corruption ''bad WriteBatch Blob'')
             | Some (blob1, input1) \<Rightarrow> ReadOK input1 tag 0 key val blob1)
          else ReadFailed (Corruption ''unknown WriteBatch tag'')))"

subsection \<open>The visitor and the iteration\<close>

text \<open>
  A \<open>WriteBatch::Handler\<close> is an object with virtual methods: the model is a record of
  functions over the handler's own state \<open>'s\<close>. \<open>Continue\<close> is not \<open>const\<close>, so it
  returns the state as well.
\<close>

record 's Handler =
  PutCF :: "32 word \<Rightarrow> bytes \<Rightarrow> bytes \<Rightarrow> 's \<Rightarrow> Status \<times> 's"
  DeleteCF :: "32 word \<Rightarrow> bytes \<Rightarrow> 's \<Rightarrow> Status \<times> 's"
  SingleDeleteCF :: "32 word \<Rightarrow> bytes \<Rightarrow> 's \<Rightarrow> Status \<times> 's"
  MergeCF :: "32 word \<Rightarrow> bytes \<Rightarrow> bytes \<Rightarrow> 's \<Rightarrow> Status \<times> 's"
  LogData :: "bytes \<Rightarrow> 's \<Rightarrow> 's"
  Continue :: "'s \<Rightarrow> bool \<times> 's"

text \<open>The defaults of the base class: \<open>LogData\<close> ignores the blob, \<open>Continue\<close> is true.\<close>

definition Handler_LogData :: "bytes \<Rightarrow> 's \<Rightarrow> 's" where
  "Handler_LogData blob hs = hs"

definition Handler_Continue :: "'s \<Rightarrow> bool \<times> 's" where
  "Handler_Continue hs = (True, hs)"

text \<open>
  The \<open>while\<close> loop of \<open>WriteBatch::Iterate\<close>. Its state is the input slice, the three
  slices declared before the loop, \<open>found\<close>, the status \<open>s\<close> and the handler. The loop
  either leaves the function (\<open>LoopReturn\<close>) or falls out of the \<open>while\<close>
  (\<open>LoopExit\<close>). The condition is evaluated left to right, so \<open>Continue\<close> is called
  only when \<open>s\<close> is OK and the input is not empty.
\<close>

datatype 's loop_outcome =
  LoopReturn Status 's
| LoopExit int Status 's

text \<open>The loop terminates: every read that succeeds consumes at least the tag byte.\<close>

lemma GetVarint32Ptr_shorter:
  "GetVarint32Ptr shift p = Some (v, q) \<Longrightarrow> length q < length p"
proof (induction p arbitrary: shift v q)
  case Nil
  then show ?case by simp
next
  case (Cons b p)
  then show ?case
    by (fastforce split: if_splits option.splits)
qed

lemma GetLengthPrefixedSlice_shorter:
  assumes "GetLengthPrefixedSlice input = Some (x, rest)"
  shows "length rest < length input"
proof -
  from assms obtain len q where g: "GetVarint32Ptr 0 input = Some (len, q)"
    and r: "rest = drop (unat len) q"
    by (auto simp: GetLengthPrefixedSlice_def GetVarint32_def split: option.splits if_splits)
  from g have "length q < length input" by (rule GetVarint32Ptr_shorter)
  with r show ?thesis by simp
qed

lemma read_key_value_shorter:
  "read_key_value msg tag blob cf input = ReadOK input' t c k v bl \<Longrightarrow> length input' < length input"
  by (auto simp: read_key_value_def split: option.splits
      dest!: GetLengthPrefixedSlice_shorter)

lemma read_key_shorter:
  "read_key msg tag val blob cf input = ReadOK input' t c k v bl \<Longrightarrow> length input' < length input"
  by (auto simp: read_key_def split: option.splits dest!: GetLengthPrefixedSlice_shorter)

lemma read_cf_key_value_shorter:
  "read_cf msg input (read_key_value msg' tag blob) = ReadOK input' t c k v bl
     \<Longrightarrow> length input' < length input"
  by (auto simp: read_cf_def GetVarint32_def split: option.splits
      dest!: read_key_value_shorter GetVarint32Ptr_shorter)

lemma read_cf_key_shorter:
  "read_cf msg input (read_key msg' tag val blob) = ReadOK input' t c k v bl
     \<Longrightarrow> length input' < length input"
  by (auto simp: read_cf_def GetVarint32_def split: option.splits
      dest!: read_key_shorter GetVarint32Ptr_shorter)

lemma read_blob_shorter:
  "(case GetLengthPrefixedSlice input of
      None \<Rightarrow> ReadFailed e
    | Some (blob1, input1) \<Rightarrow> ReadOK input1 tag cf key val blob1) = ReadOK input' t c k v bl
   \<Longrightarrow> length input' < length input"
  by (auto split: option.splits dest!: GetLengthPrefixedSlice_shorter)

lemma ReadRecordFromWriteBatch_shorter:
  assumes "ReadRecordFromWriteBatch T input key val blob = Inr (ReadOK input' t c k v bl)"
  shows "length input' < length input"
proof (cases input)
  case Nil
  with assms show ?thesis by (simp add: ReadRecordFromWriteBatch_def)
next
  case (Cons tag input0)
  from assms have "length input' < length input0"
    unfolding ReadRecordFromWriteBatch_def Cons list.case sum.inject
    by (elim read_cf_key_value_shorter read_cf_key_shorter read_key_value_shorter
        read_key_shorter read_blob_shorter | simp split: if_splits)+
  with Cons show ?thesis by simp
qed

text \<open>
  The \<open>switch\<close> in the loop body: it calls the handler, counts the record in \<open>found\<close>
  unless it is log data, and leaves through \<open>default\<close> on a tag it does not know.
\<close>

datatype 's dispatched =
  Dispatched int Status 's
| UnknownTag

definition dispatch ::
  "ValueType \<Rightarrow> 's Handler \<Rightarrow> byte \<Rightarrow> 32 word \<Rightarrow> bytes \<Rightarrow> bytes \<Rightarrow> bytes \<Rightarrow> int \<Rightarrow> Status \<Rightarrow> 's
     \<Rightarrow> 's dispatched" where
  "dispatch T handler tag column_family key val blob found s hs =
     (if tag = kTypeColumnFamilyValue T \<or> tag = kTypeValue T then
        (case PutCF handler column_family key val hs of
           (s1, hs1) \<Rightarrow> Dispatched (found + 1) s1 hs1)
      else if tag = kTypeColumnFamilyDeletion T \<or> tag = kTypeDeletion T then
        (case DeleteCF handler column_family key hs of
           (s1, hs1) \<Rightarrow> Dispatched (found + 1) s1 hs1)
      else if tag = kTypeColumnFamilySingleDeletion T \<or> tag = kTypeSingleDeletion T then
        (case SingleDeleteCF handler column_family key hs of
           (s1, hs1) \<Rightarrow> Dispatched (found + 1) s1 hs1)
      else if tag = kTypeColumnFamilyMerge T \<or> tag = kTypeMerge T then
        (case MergeCF handler column_family key val hs of
           (s1, hs1) \<Rightarrow> Dispatched (found + 1) s1 hs1)
      else if tag = kTypeLogData T then
        Dispatched found s (LogData handler blob hs)
      else UnknownTag)"

function Iterate_loop ::
  "ValueType \<Rightarrow> 's Handler \<Rightarrow> bytes \<Rightarrow> bytes \<Rightarrow> bytes \<Rightarrow> bytes \<Rightarrow> int \<Rightarrow> Status \<Rightarrow> 's
     \<Rightarrow> fault + 's loop_outcome" where
  "Iterate_loop T handler input key val blob found s hs =
     (if ok s \<and> input \<noteq> [] then
        (case Continue handler hs of
           (False, hs1) \<Rightarrow> Inr (LoopExit found s hs1)
         | (True, hs1) \<Rightarrow>
            (case ReadRecordFromWriteBatch T input key val blob of
               Inl f \<Rightarrow> Inl f
             | Inr (ReadFailed e) \<Rightarrow> Inr (LoopReturn e hs1)
             | Inr (ReadOK input1 tag column_family key1 val1 blob1) \<Rightarrow>
                 (case dispatch T handler tag column_family key1 val1 blob1 found s hs1 of
                    UnknownTag \<Rightarrow> Inr (LoopReturn (Corruption ''unknown WriteBatch tag'') hs1)
                  | Dispatched found1 s1 hs2 \<Rightarrow>
                      Iterate_loop T handler input1 key1 val1 blob1 found1 s1 hs2)))
      else Inr (LoopExit found s hs))"
  by pat_completeness auto
termination
  by (relation "measure (\<lambda>(T, handler, input, key, val, blob, found, s, hs). length input)")
     (auto dest: ReadRecordFromWriteBatch_shorter)

declare Iterate_loop.simps [simp del]

definition Iterate :: "ValueType \<Rightarrow> 's Handler \<Rightarrow> 's \<Rightarrow> WriteBatch \<Rightarrow> fault + Status \<times> 's" where
  "Iterate T handler hs b =
     (if length (rep b) < kHeader then
        Inr (Corruption ''malformed WriteBatch (too small)'', hs)
      else
        (case Iterate_loop T handler (drop kHeader (rep b)) [] [] [] 0 OK hs of
           Inl f \<Rightarrow> Inl f
         | Inr (LoopReturn e hs1) \<Rightarrow> Inr (e, hs1)
         | Inr (LoopExit found s hs1) \<Rightarrow>
             if \<not> ok s then Inr (s, hs1)
             else if found \<noteq> Count b then Inr (Corruption ''WriteBatch has wrong count'', hs1)
             else Inr (OK, hs1)))"

subsection \<open>The content-flag classifier and the lazy flag computation\<close>

text \<open>The state of a \<open>BatchContentClassifier\<close> is its field \<open>content_flags\<close>.\<close>

definition BatchContentClassifier :: "(32 word) Handler" where
  "BatchContentClassifier =
     \<lparr> PutCF = (\<lambda>cf key val fl. (OK, fl OR HAS_PUT)),
       DeleteCF = (\<lambda>cf key fl. (OK, fl OR HAS_DELETE)),
       SingleDeleteCF = (\<lambda>cf key fl. (OK, fl OR HAS_SINGLE_DELETE)),
       MergeCF = (\<lambda>cf key val fl. (OK, fl OR HAS_MERGE)),
       LogData = Handler_LogData,
       Continue = Handler_Continue \<rparr>"

text \<open>
  \<open>ComputeContentFlags\<close> is \<open>const\<close> and writes the mutable member \<open>content_flags_\<close>:
  the model returns the batch with the value. The status that \<open>Iterate\<close> returns is
  not looked at.
\<close>

definition ComputeContentFlags :: "ValueType \<Rightarrow> WriteBatch \<Rightarrow> fault + 32 word \<times> WriteBatch" where
  "ComputeContentFlags T b =
     (let rv = content_flags b
      in if rv AND DEFERRED \<noteq> 0 then
           (case Iterate T BatchContentClassifier 0 b of
              Inl f \<Rightarrow> Inl f
            | Inr (st, classifier) \<Rightarrow> Inr (classifier, b\<lparr> content_flags := classifier \<rparr>))
         else Inr (rv, b))"

definition has_flag :: "ValueType \<Rightarrow> 32 word \<Rightarrow> WriteBatch \<Rightarrow> fault + bool \<times> WriteBatch" where
  "has_flag T f b =
     (case ComputeContentFlags T b of
        Inl e \<Rightarrow> Inl e
      | Inr (rv, b1) \<Rightarrow> Inr (rv AND f \<noteq> 0, b1))"

definition HasPut :: "ValueType \<Rightarrow> WriteBatch \<Rightarrow> fault + bool \<times> WriteBatch" where
  "HasPut T b = has_flag T HAS_PUT b"

definition HasDelete :: "ValueType \<Rightarrow> WriteBatch \<Rightarrow> fault + bool \<times> WriteBatch" where
  "HasDelete T b = has_flag T HAS_DELETE b"

definition HasSingleDelete :: "ValueType \<Rightarrow> WriteBatch \<Rightarrow> fault + bool \<times> WriteBatch" where
  "HasSingleDelete T b = has_flag T HAS_SINGLE_DELETE b"

definition HasMerge :: "ValueType \<Rightarrow> WriteBatch \<Rightarrow> fault + bool \<times> WriteBatch" where
  "HasMerge T b = has_flag T HAS_MERGE b"

subsection \<open>The memory-table applier\<close>

text \<open>
  \<open>MemTableInserter\<close> is the handler that applies a batch to the memory tables. Its
  collaborators (\<open>ColumnFamilyMemTables\<close>, \<open>MemTable\<close>, \<open>DBImpl\<close>, \<open>FlushScheduler\<close>,
  the statistics and the merge operator) live outside db/write\_batch.cc: they are a
  parameter, a record \<open>Env\<close> of operations on a state \<open>'w\<close> that stands for everything
  they own. Operations that only read take the state and return a value. The handler's
  own mutable field is \<open>sequence_\<close>; its state is the pair of \<open>sequence_\<close> and \<open>'w\<close>.
  The fields fixed by the constructor are the record \<open>Inserter\<close> (a pointer that is
  only tested against \<open>nullptr\<close> is a \<open>bool\<close>). The snapshot pinned at \<open>sequence_\<close> is
  the sequence number passed to \<open>Get\<close> and \<open>KeyMayExist\<close>; the choice of the default
  column family handle is inside them.
\<close>

datatype UpdateStatus = UPDATE_FAILED | UPDATED_INPLACE | UPDATED

datatype Tickers = NUMBER_KEYS_UPDATED | NUMBER_KEYS_WRITTEN | NUMBER_FILTERED_DELETES
  | NUMBER_MERGE_FAILURES | MERGE_OPERATION_TOTAL_TIME

record MemTableOptions =
  inplace_update_support :: bool
  has_inplace_callback :: bool
  filter_deletes :: bool
  max_successive_merges :: nat

record 'w Env =
  Seek :: "32 word \<Rightarrow> 'w \<Rightarrow> bool \<times> 'w"
  GetLogNumber :: "'w \<Rightarrow> 64 word"
  GetMemTableOptions :: "'w \<Rightarrow> MemTableOptions"
  Add :: "64 word \<Rightarrow> byte \<Rightarrow> bytes \<Rightarrow> bytes \<Rightarrow> 'w \<Rightarrow> 'w"
  Update :: "64 word \<Rightarrow> bytes \<Rightarrow> bytes \<Rightarrow> 'w \<Rightarrow> 'w"
  UpdateCallback :: "64 word \<Rightarrow> bytes \<Rightarrow> bytes \<Rightarrow> 'w \<Rightarrow> bool \<times> 'w"
  Get :: "64 word \<Rightarrow> bytes \<Rightarrow> 'w \<Rightarrow> Status \<times> bytes"
  inplace_callback :: "bytes option \<Rightarrow> bytes \<Rightarrow> UpdateStatus \<times> bytes \<times> bytes"
  KeyMayExist :: "64 word \<Rightarrow> bytes \<Rightarrow> 'w \<Rightarrow> bool"
  CountSuccessiveMergeEntries :: "64 word \<Rightarrow> bytes \<Rightarrow> 'w \<Rightarrow> nat"
  FullMerge :: "bytes \<Rightarrow> bytes \<Rightarrow> bytes \<Rightarrow> 'w \<Rightarrow> bool \<times> bytes"
  RecordTick :: "Tickers \<Rightarrow> 'w \<Rightarrow> 'w"
  ShouldScheduleFlush :: "'w \<Rightarrow> bool"
  MarkFlushScheduled :: "'w \<Rightarrow> bool \<times> 'w"
  ScheduleFlush :: "'w \<Rightarrow> 'w"

record Inserter =
  has_flush_scheduler :: bool
  ignore_missing_column_families :: bool
  log_number :: "64 word"
  has_db :: bool
  dont_filter_deletes :: bool
  concurrent_memtable_writes :: bool

text \<open>\<open>SeekToColumnFamily\<close> returns its \<open>bool\<close>, the status it stores and the state.\<close>

definition SeekToColumnFamily ::
  "Inserter \<Rightarrow> 'w Env \<Rightarrow> 32 word \<Rightarrow> 'w \<Rightarrow> bool \<times> Status \<times> 'w" where
  "SeekToColumnFamily ins env column_family_id w =
     (case Seek env column_family_id w of
        (False, w1) \<Rightarrow>
          if ignore_missing_column_families ins then (False, OK, w1)
          else (False, InvalidArgument ''Invalid column family specified in write batch'', w1)
      | (True, w1) \<Rightarrow>
          if log_number ins \<noteq> 0 \<and> log_number ins < GetLogNumber env w1 then (False, OK, w1)
          else (True, OK, w1))"

definition CheckMemtableFull :: "Inserter \<Rightarrow> 'w Env \<Rightarrow> 'w \<Rightarrow> 'w" where
  "CheckMemtableFull ins env w =
     (if has_flush_scheduler ins then
        (if ShouldScheduleFlush env w then
           (case MarkFlushScheduled env w of
              (True, w1) \<Rightarrow> ScheduleFlush env w1
            | (False, w1) \<Rightarrow> w1)
         else w)
      else w)"

definition MemTableInserter_PutCF ::
  "ValueType \<Rightarrow> Inserter \<Rightarrow> 'w Env \<Rightarrow> 32 word \<Rightarrow> bytes \<Rightarrow> bytes \<Rightarrow> 64 word \<times> 'w
     \<Rightarrow> Status \<times> 64 word \<times> 'w" where
  "MemTableInserter_PutCF T ins env column_family_id key val st =
     (case st of (sequence, w) \<Rightarrow>
       (case SeekToColumnFamily ins env column_family_id w of
          (False, seek_status, w1) \<Rightarrow> (seek_status, sequence + 1, w1)
        | (True, seek_status, w1) \<Rightarrow>
            let moptions = GetMemTableOptions env w1;
                w2 =
                 (if \<not> inplace_update_support moptions then
                    Add env sequence (kTypeValue T) key val w1
                  else if \<not> has_inplace_callback moptions then
                    RecordTick env NUMBER_KEYS_UPDATED (Update env sequence key val w1)
                  else
                    (case UpdateCallback env sequence key val w1 of
                       (True, w3) \<Rightarrow> w3
                     | (False, w3) \<Rightarrow>
                        (case Get env sequence key w3 of
                           (s, prev_value) \<Rightarrow>
                            (case inplace_callback env
                                    (if ok s then Some prev_value else None) val of
                               (status, prev_buffer, merged_value) \<Rightarrow>
                                 if status = UPDATED_INPLACE then
                                   RecordTick env NUMBER_KEYS_WRITTEN
                                     (Add env sequence (kTypeValue T) key prev_buffer w3)
                                 else if status = UPDATED then
                                   RecordTick env NUMBER_KEYS_WRITTEN
                                     (Add env sequence (kTypeValue T) key merged_value w3)
                                 else w3))))
            in (OK, sequence + 1, CheckMemtableFull ins env w2)))"

definition DeleteImpl ::
  "Inserter \<Rightarrow> 'w Env \<Rightarrow> 32 word \<Rightarrow> bytes \<Rightarrow> byte \<Rightarrow> 64 word \<times> 'w
     \<Rightarrow> Status \<times> 64 word \<times> 'w" where
  "DeleteImpl ins env column_family_id key delete_type st =
     (case st of (sequence, w) \<Rightarrow>
       (case SeekToColumnFamily ins env column_family_id w of
          (False, seek_status, w1) \<Rightarrow> (seek_status, sequence + 1, w1)
        | (True, seek_status, w1) \<Rightarrow>
            let moptions = GetMemTableOptions env w1
            in if \<not> dont_filter_deletes ins \<and> filter_deletes moptions
                  \<and> \<not> KeyMayExist env sequence key w1 then
                 (OK, sequence, RecordTick env NUMBER_FILTERED_DELETES w1)
               else
                 (OK, sequence + 1,
                  CheckMemtableFull ins env (Add env sequence delete_type key [] w1))))"

definition MemTableInserter_DeleteCF ::
  "ValueType \<Rightarrow> Inserter \<Rightarrow> 'w Env \<Rightarrow> 32 word \<Rightarrow> bytes \<Rightarrow> 64 word \<times> 'w
     \<Rightarrow> Status \<times> 64 word \<times> 'w" where
  "MemTableInserter_DeleteCF T ins env column_family_id key st =
     DeleteImpl ins env column_family_id key (kTypeDeletion T) st"

definition MemTableInserter_SingleDeleteCF ::
  "ValueType \<Rightarrow> Inserter \<Rightarrow> 'w Env \<Rightarrow> 32 word \<Rightarrow> bytes \<Rightarrow> 64 word \<times> 'w
     \<Rightarrow> Status \<times> 64 word \<times> 'w" where
  "MemTableInserter_SingleDeleteCF T ins env column_family_id key st =
     DeleteImpl ins env column_family_id key (kTypeSingleDeletion T) st"

definition MemTableInserter_MergeCF ::
  "ValueType \<Rightarrow> Inserter \<Rightarrow> 'w Env \<Rightarrow> 32 word \<Rightarrow> bytes \<Rightarrow> bytes \<Rightarrow> 64 word \<times> 'w
     \<Rightarrow> Status \<times> 64 word \<times> 'w" where
  "MemTableInserter_MergeCF T ins env column_family_id key val st =
     (case st of (sequence, w) \<Rightarrow>
       (case SeekToColumnFamily ins env column_family_id w of
          (False, seek_status, w1) \<Rightarrow> (seek_status, sequence + 1, w1)
        | (True, seek_status, w1) \<Rightarrow>
            let moptions = GetMemTableOptions env w1;
                perform_merge =
                  (0 < max_successive_merges moptions \<and> has_db ins \<and>
                   max_successive_merges moptions \<le> CountSuccessiveMergeEntries env sequence key w1);
                (perform_merge1, w2) =
                  (if perform_merge then
                     (case Get env sequence key w1 of
                        (s, get_value) \<Rightarrow>
                         (case FullMerge env key get_value val w1 of
                            (merge_success, new_value) \<Rightarrow>
                              let w3 = RecordTick env MERGE_OPERATION_TOTAL_TIME w1
                              in if \<not> merge_success then
                                   (False, RecordTick env NUMBER_MERGE_FAILURES w3)
                                 else (True, Add env sequence (kTypeValue T) key new_value w3)))
                   else (False, w1));
                w4 = (if \<not> perform_merge1 then Add env sequence (kTypeMerge T) key val w2 else w2)
            in (OK, sequence + 1, CheckMemtableFull ins env w4)))"

definition MemTableInserter :: "ValueType \<Rightarrow> Inserter \<Rightarrow> 'w Env \<Rightarrow> (64 word \<times> 'w) Handler" where
  "MemTableInserter T ins env =
     \<lparr> PutCF = MemTableInserter_PutCF T ins env,
       DeleteCF = MemTableInserter_DeleteCF T ins env,
       SingleDeleteCF = MemTableInserter_SingleDeleteCF T ins env,
       MergeCF = MemTableInserter_MergeCF T ins env,
       LogData = Handler_LogData,
       Continue = Handler_Continue \<rparr>"

text \<open>
  \<open>WriteBatchInternal::InsertInto\<close> for one batch: the inserter starts at the sequence
  number in the header of the batch.
\<close>

definition InsertInto ::
  "ValueType \<Rightarrow> Inserter \<Rightarrow> 'w Env \<Rightarrow> 'w \<Rightarrow> WriteBatch \<Rightarrow> fault + Status \<times> 64 word \<times> 'w" where
  "InsertInto T ins env w batch = Iterate T (MemTableInserter T ins env) (Sequence batch, w) batch"

subsection \<open>The records of a payload\<close>

text \<open>
  What \<open>ReadRecordFromWriteBatch\<close> reads when it is called again and again on a payload,
  as the loop of \<open>Iterate\<close> does, with no handler in between: the records read before the
  input is exhausted (\<open>None\<close>) or before the first read that fails (\<open>Some\<close> of its
  status). A record is the tuple of tag, column family, key, value and blob. The payload
  decodes cleanly when the second component is \<open>None\<close>.
\<close>

type_synonym entry = "byte \<times> 32 word \<times> bytes \<times> bytes \<times> bytes"

function read_all ::
  "ValueType \<Rightarrow> bytes \<Rightarrow> bytes \<Rightarrow> bytes \<Rightarrow> bytes \<Rightarrow> entry list \<times> Status option" where
  "read_all T input key val blob =
     (if input = [] then ([], None)
      else
        (case ReadRecordFromWriteBatch T input key val blob of
           Inl f \<Rightarrow> ([], Some (Other ''out of range''))
         | Inr (ReadFailed e) \<Rightarrow> ([], Some e)
         | Inr (ReadOK input1 tag column_family key1 val1 blob1) \<Rightarrow>
             (case read_all T input1 key1 val1 blob1 of
                (rs, e) \<Rightarrow> ((tag, column_family, key1, val1, blob1) # rs, e))))"
  by pat_completeness auto
termination
  by (relation "measure (\<lambda>(T, input, key, val, blob). length input)")
     (auto dest: ReadRecordFromWriteBatch_shorter)

declare read_all.simps [simp del]

text \<open>The tags for which the loop of \<open>Iterate\<close> increments \<open>found\<close>: all but log data.\<close>

definition counted :: "ValueType \<Rightarrow> byte \<Rightarrow> bool" where
  "counted T tag =
     (tag = kTypeColumnFamilyValue T \<or> tag = kTypeValue T \<or>
      tag = kTypeColumnFamilyDeletion T \<or> tag = kTypeDeletion T \<or>
      tag = kTypeColumnFamilySingleDeletion T \<or> tag = kTypeSingleDeletion T \<or>
      tag = kTypeColumnFamilyMerge T \<or> tag = kTypeMerge T)"

definition num_counted :: "ValueType \<Rightarrow> entry list \<Rightarrow> nat" where
  "num_counted T rs = length (filter (\<lambda>r. counted T (fst r)) rs)"

text \<open>
  The handler state after the loop has visited a list of records: before each record
  \<open>Continue\<close> is asked, then the record is dispatched.
\<close>

definition visit :: "ValueType \<Rightarrow> 's Handler \<Rightarrow> entry \<Rightarrow> 's \<Rightarrow> 's" where
  "visit T handler r hs =
     (case r of (tag, column_family, key, val, blob) \<Rightarrow>
        (case dispatch T handler tag column_family key val blob 0 OK (snd (Continue handler hs)) of
           Dispatched found1 s1 hs1 \<Rightarrow> hs1
         | UnknownTag \<Rightarrow> snd (Continue handler hs)))"

definition visit_all :: "ValueType \<Rightarrow> 's Handler \<Rightarrow> entry list \<Rightarrow> 's \<Rightarrow> 's" where
  "visit_all T handler rs hs = fold (visit T handler) rs hs"

text \<open>
  A handler that lets the iteration run to the end of the payload: its continuation
  predicate is true and its callbacks return OK, in every state.
\<close>

definition runs_to_end :: "'s Handler \<Rightarrow> bool" where
  "runs_to_end handler =
     ((\<forall>hs. fst (Continue handler hs)) \<and>
      (\<forall>cf key val hs. fst (PutCF handler cf key val hs) = OK) \<and>
      (\<forall>cf key hs. fst (DeleteCF handler cf key hs) = OK) \<and>
      (\<forall>cf key hs. fst (SingleDeleteCF handler cf key hs) = OK) \<and>
      (\<forall>cf key val hs. fst (MergeCF handler cf key val hs) = OK))"

text \<open>
  The same for one run: iterating over the records \<open>rs\<close> from the handler state \<open>hs\<close>,
  \<open>Continue\<close> is true before every record and the callback of every record returns OK.
  Nothing is said about the handler in other states or on other records.
\<close>

fun runs_through :: "ValueType \<Rightarrow> 's Handler \<Rightarrow> entry list \<Rightarrow> 's \<Rightarrow> bool" where
  "runs_through T handler [] hs = True"
| "runs_through T handler (r # rs) hs =
     (fst (Continue handler hs) \<and>
      (case r of (tag, column_family, key, val, blob) \<Rightarrow>
         (case dispatch T handler tag column_family key val blob 0 OK (snd (Continue handler hs)) of
            Dispatched found1 s1 hs1 \<Rightarrow> ok s1 \<and> runs_through T handler rs hs1
          | UnknownTag \<Rightarrow> False)))"

text \<open>The bit the classifier sets for a tag (none for log data).\<close>

definition flag_of :: "ValueType \<Rightarrow> byte \<Rightarrow> 32 word" where
  "flag_of T tag =
     (if tag = kTypeColumnFamilyValue T \<or> tag = kTypeValue T then HAS_PUT
      else if tag = kTypeColumnFamilyDeletion T \<or> tag = kTypeDeletion T then HAS_DELETE
      else if tag = kTypeColumnFamilySingleDeletion T \<or> tag = kTypeSingleDeletion T
        then HAS_SINGLE_DELETE
      else if tag = kTypeColumnFamilyMerge T \<or> tag = kTypeMerge T then HAS_MERGE
      else 0)"

subsection \<open>Sequences of operations on a batch\<close>

text \<open>
  The operations a client may run between a save-point and the rollback to it: the
  append operations (put, delete, single delete and merge in both forms, and log data)
  and the content-flag queries, which may replace a \<open>DEFERRED\<close> flag word by the
  computed one. None of them touches the save-point stack.
\<close>

datatype batch_op =
  OpPut "32 word" bytes bytes
| OpPutParts "32 word" "bytes list" "bytes list"
| OpDelete "32 word" bytes
| OpDeleteParts "32 word" "bytes list"
| OpSingleDelete "32 word" bytes
| OpSingleDeleteParts "32 word" "bytes list"
| OpMerge "32 word" bytes bytes
| OpMergeParts "32 word" "bytes list" "bytes list"
| OpPutLogData bytes
| OpHasPut
| OpHasDelete
| OpHasSingleDelete
| OpHasMerge

definition after_query :: "fault + bool \<times> WriteBatch \<Rightarrow> fault + WriteBatch" where
  "after_query r = (case r of Inl f \<Rightarrow> Inl f | Inr (answer, b) \<Rightarrow> Inr b)"

fun apply_op :: "ValueType \<Rightarrow> batch_op \<Rightarrow> WriteBatch \<Rightarrow> fault + WriteBatch" where
  "apply_op T (OpPut cf key val) b = Inr (Put T b cf key val)"
| "apply_op T (OpPutParts cf key val) b = Inr (PutParts T b cf key val)"
| "apply_op T (OpDelete cf key) b = Inr (Delete T b cf key)"
| "apply_op T (OpDeleteParts cf key) b = Inr (DeleteParts T b cf key)"
| "apply_op T (OpSingleDelete cf key) b = Inr (SingleDelete T b cf key)"
| "apply_op T (OpSingleDeleteParts cf key) b = Inr (SingleDeleteParts T b cf key)"
| "apply_op T (OpMerge cf key val) b = Inr (Merge T b cf key val)"
| "apply_op T (OpMergeParts cf key val) b = Inr (MergeParts T b cf key val)"
| "apply_op T (OpPutLogData blob) b = Inr (PutLogData T b blob)"
| "apply_op T OpHasPut b = after_query (HasPut T b)"
| "apply_op T OpHasDelete b = after_query (HasDelete T b)"
| "apply_op T OpHasSingleDelete b = after_query (HasSingleDelete T b)"
| "apply_op T OpHasMerge b = after_query (HasMerge T b)"

fun run_ops :: "ValueType \<Rightarrow> batch_op list \<Rightarrow> WriteBatch \<Rightarrow> fault + WriteBatch" where
  "run_ops T [] b = Inr b"
| "run_ops T (x # xs) b = (case apply_op T x b of Inl f \<Rightarrow> Inl f | Inr b1 \<Rightarrow> run_ops T xs b1)"

section \<open>Concrete batches\<close>

text \<open>
  The batches of the append scenario: A holds one put, B a delete and a merge and the
  sequence number 99.
\<close>

definition batch_A :: WriteBatch where
  "batch_A = Put sample_tags (WriteBatch_new 0) 0 [97] [49]"

definition batch_B :: WriteBatch where
  "batch_B = SetSequence
     (Merge sample_tags (Delete sample_tags (WriteBatch_new 0) 0 [98]) 0 [99] [51]) 99"

text \<open>
  Batches adopted from raw bytes (their flags are \<open>DEFERRED\<close>): one whose payload is a
  put followed by a byte that is no tag, one of three bytes, and one that holds a
  single put under a header count of 2.
\<close>

definition batch_bad_tag :: WriteBatch where
  "batch_bad_tag = WriteBatch_of_string
     [0, 0, 0, 0, 0, 0, 0, 0, 1, 0, 0, 0, 1, 1, 97, 1, 49, 255]"

definition batch_too_short :: WriteBatch where
  "batch_too_short = WriteBatch_of_string [0, 0, 0]"

definition batch_count_2_one_put :: WriteBatch where
  "batch_count_2_one_put = WriteBatch_of_string
     [0, 0, 0, 0, 0, 0, 0, 0, 2, 0, 0, 0, 5, 7, 1, 97, 1, 49]"

text \<open>A well-formed batch of two puts, and a batch of a single delete of key "k".\<close>

definition batch_two_puts :: WriteBatch where
  "batch_two_puts = Put sample_tags (Put sample_tags (WriteBatch_new 0) 0 [97] [49]) 0 [98] [50]"

definition batch_one_delete :: WriteBatch where
  "batch_one_delete = Delete sample_tags (WriteBatch_new 0) 0 [107]"

text \<open>
  A handler that counts the records it is given and whose \<open>Continue\<close> turns false once
  it has seen \<open>n\<close> of them.
\<close>

definition stop_after :: "nat \<Rightarrow> nat Handler" where
  "stop_after n =
     \<lparr> PutCF = (\<lambda>cf key val seen. (OK, Suc seen)),
       DeleteCF = (\<lambda>cf key seen. (OK, Suc seen)),
       SingleDeleteCF = (\<lambda>cf key seen. (OK, Suc seen)),
       MergeCF = (\<lambda>cf key val seen. (OK, Suc seen)),
       LogData = Handler_LogData,
       Continue = (\<lambda>seen. (seen < n, seen)) \<rparr>"

text \<open>
  A small environment for the applier: one column family, number 0, with log number
  10; its memory table is the list of the entries added, with \<open>filter_deletes\<close> on and
  no in-place update; a key may exist when an entry for it has been added; no flush is
  ever due. The inserter is the one of a regular write: log number 0, missing column
  families are an error, deletes are filtered.
\<close>

type_synonym sample_table = "(64 word \<times> byte \<times> bytes \<times> bytes) list"

definition sample_env :: "sample_table Env" where
  "sample_env =
     \<lparr> Seek = (\<lambda>cf w. (cf = 0, w)),
       GetLogNumber = (\<lambda>w. 10),
       GetMemTableOptions = (\<lambda>w. \<lparr> inplace_update_support = False,
          has_inplace_callback = False, filter_deletes = True, max_successive_merges = 0 \<rparr>),
       Add = (\<lambda>seq t key val w. w @ [(seq, t, key, val)]),
       Update = (\<lambda>seq key val w. w),
       UpdateCallback = (\<lambda>seq key val w. (False, w)),
       Get = (\<lambda>seq key w. (NotFound, [])),
       inplace_callback = (\<lambda>prev val. (UPDATE_FAILED, [], [])),
       KeyMayExist = (\<lambda>seq key w. key \<in> set (map (\<lambda>(s, t, k, v). k) w)),
       CountSuccessiveMergeEntries = (\<lambda>seq key w. 0),
       FullMerge = (\<lambda>key existing operand w. (False, [])),
       RecordTick = (\<lambda>ticker w. w),
       ShouldScheduleFlush = (\<lambda>w. False),
       MarkFlushScheduled = (\<lambda>w. (False, w)),
       ScheduleFlush = (\<lambda>w. w) \<rparr>"

definition sample_inserter :: Inserter where
  "sample_inserter =
     \<lparr> has_flush_scheduler = False, ignore_missing_column_families = False, log_number = 0,
       has_db = True, dont_filter_deletes = False, concurrent_memtable_writes = False \<rparr>"

text \<open>
  A batch adopted from twelve bytes that carry the sequence number 7 and no record,
  with two save-points set on it and one put appended after them.
\<close>

definition batch_seq7 :: WriteBatch where
  "batch_seq7 = WriteBatch_of_string [7, 0, 0, 0, 0, 0, 0, 0, 0, 0, 0, 0]"

definition seq7_heap :: heap where
  "seq7_heap = fst (SetSavePoint (fst (SetSavePoint [] batch_seq7)) (snd (SetSavePoint [] batch_seq7)))"

definition seq7_after_put :: WriteBatch where
  "seq7_after_put = Put sample_tags
     (snd (SetSavePoint (fst (SetSavePoint [] batch_seq7)) (snd (SetSavePoint [] batch_seq7))))
     0 [97] [49]"

text \<open>
  Batch A with a save-point set on it (on an empty heap), and its copy made by the
  copy constructor.
\<close>

definition original_heap :: heap where
  "original_heap = fst (SetSavePoint [] batch_A)"

definition original :: WriteBatch where
  "original = snd (SetSavePoint [] batch_A)"

definition copied :: WriteBatch where
  "copied = WriteBatch_copy original"

text \<open>A well-formed batch of one put adopted from raw bytes, so that its flags are \<open>DEFERRED\<close>.\<close>

definition batch_deferred_put :: WriteBatch where
  "batch_deferred_put = WriteBatch_of_string (rep batch_A)"

text \<open>
  A batch adopted from raw bytes that holds one put to the default column family under
  a header count of 2.
\<close>

definition batch_count_2_default_put :: WriteBatch where
  "batch_count_2_default_put = WriteBatch_of_string
     [0, 0, 0, 0, 0, 0, 0, 0, 2, 0, 0, 0, 1, 1, 97, 1, 49]"

text \<open>
  Two header-only batches adopted from raw bytes, with the counts \<open>2 ^ 31 - 1\<close> and 1
  in their headers.
\<close>

definition batch_count_max :: WriteBatch where
  "batch_count_max = WriteBatch_of_string [0, 0, 0, 0, 0, 0, 0, 0, 255, 255, 255, 127]"

definition batch_count_1 :: WriteBatch where
  "batch_count_1 = WriteBatch_of_string [0, 0, 0, 0, 0, 0, 0, 0, 1, 0, 0, 0]"

section \<open>Properties\<close>

subsection \<open>Helper facts about the codecs\<close>

lemma varint32_bytes_small: "n < 128 \<Longrightarrow> varint32_bytes n = [of_nat n]"
  by (simp add: varint32_bytes.simps)

lemma resize_empty_kHeader: "resize [] kHeader = [0, 0, 0, 0, 0, 0, 0, 0, 0, 0, 0, 0]"
  by (simp add: resize_def kHeader_def eval_nat_numeral)

lemma DecodeFixed32_EncodeFixed32: "DecodeFixed32 (EncodeFixed32 v @ xs) = v"
proof (rule bit_word_eqI)
  fix n assume "n < LENGTH(32)"
  then have n: "n < 32" by simp
  consider "n < 8" | "8 \<le> n" "n < 16" | "16 \<le> n" "n < 24" | "24 \<le> n" "n < 32"
    using n by linarith
  then show "bit (DecodeFixed32 (EncodeFixed32 v @ xs)) n = bit v n"
    by cases (auto simp: DecodeFixed32_def EncodeFixed32_def bit_simps)
qed

lemma EncodeFixed32_DecodeFixed32:
  "EncodeFixed32 (DecodeFixed32 (a # b # c # d # xs)) = [a, b, c, d]"
  unfolding DecodeFixed32_def EncodeFixed32_def
  apply simp
  apply (intro conjI; rule bit_word_eqI)
  apply (auto simp: bit_simps dest: bit_imp_le_length)
  done

lemma length_EncodeFixed32 [simp]: "length (EncodeFixed32 v) = 4"
  by (simp add: EncodeFixed32_def)

lemma rep_SetCount:
  "rep (SetCount b n) = take 8 (rep b) @ EncodeFixed32 (word_of_int n) @ drop 12 (rep b)"
  by (simp add: SetCount_def)

lemma DecodeFixed64_take:
  assumes "take 8 p = take 8 q"
  shows "DecodeFixed64 p = DecodeFixed64 q"
proof -
  have "p ! i = q ! i" if "i < 8" for i
    using that assms by (metis nth_take)
  then show ?thesis by (simp add: DecodeFixed64_def)
qed

lemmas eval_defs = Put_def Delete_def Merge_def SingleDelete_def PutLogData_def
  WriteBatch_new_def resize_empty_kHeader SetCount_def Count_def
  DecodeFixed32_def EncodeFixed32_def tag_and_cf_def PutLengthPrefixedSlice_def
  PutVarint32_def varint32_bytes_small set_flag_def Let_def sample_tags_def
  HAS_PUT_def HAS_DELETE_def HAS_SINGLE_DELETE_def HAS_MERGE_def DEFERRED_def

lemma batch_A_eq: "batch_A = \<lparr> save_points = None, content_flags = 2,
   rep = [0,0,0,0,0,0,0,0, 1,0,0,0, 1, 1, 97, 1, 49] \<rparr>"
  by (simp add: batch_A_def eval_defs)

lemma batch_B_eq: "batch_B = \<lparr> save_points = None, content_flags = 20,
   rep = [99,0,0,0,0,0,0,0, 2,0,0,0, 0, 1, 98, 2, 1, 99, 1, 51] \<rparr>"
  by (simp add: batch_B_def eval_defs SetSequence_def EncodeFixed64_def)

subsection \<open>Facts about the iteration\<close>

lemma ReadRecord_nonempty:
  "input \<noteq> [] \<Longrightarrow> \<exists>r. ReadRecordFromWriteBatch T input key val blob = Inr r"
  by (cases input) (simp_all add: ReadRecordFromWriteBatch_def)

lemma read_key_value_tag:
  "read_key_value msg tag blob cf input = ReadOK input' t c k v bl \<Longrightarrow> t = tag"
  by (auto simp: read_key_value_def split: option.splits)

lemma read_key_tag:
  "read_key msg tag val blob cf input = ReadOK input' t c k v bl \<Longrightarrow> t = tag"
  by (auto simp: read_key_def split: option.splits)

lemma read_cf_tag:
  "read_cf msg input rest = ReadOK input' t c k v bl \<Longrightarrow>
   (\<And>cf i. rest cf i = ReadOK input' t c k v bl \<Longrightarrow> t = tag) \<Longrightarrow> t = tag"
  by (auto simp: read_cf_def split: option.splits)

lemma ReadRecord_known_tag:
  assumes "ReadRecordFromWriteBatch T input key val blob = Inr (ReadOK input' t c k v bl)"
  shows "counted T t \<or> t = kTypeLogData T"
proof (cases input)
  case Nil
  with assms show ?thesis by (simp add: ReadRecordFromWriteBatch_def)
next
  case (Cons tag input0)
  have t: "t = tag"
    using assms unfolding ReadRecordFromWriteBatch_def Cons list.case sum.inject
    by (auto split: if_splits option.splits
        elim!: read_cf_tag dest: read_key_value_tag read_key_tag)
  show ?thesis
    using assms unfolding ReadRecordFromWriteBatch_def Cons list.case sum.inject t counted_def
    by (auto split: if_splits)
qed

lemma dispatch_known:
  "counted T tag \<or> tag = kTypeLogData T \<Longrightarrow>
   dispatch T h tag cf key val blob found s hs \<noteq> UnknownTag"
  by (auto simp: dispatch_def counted_def split: prod.splits)

lemma dispatch_runs_to_end:
  assumes "runs_to_end h"
  shows "dispatch T h tag cf key val blob found OK hs = UnknownTag \<or>
    (\<exists>hs1. dispatch T h tag cf key val blob found OK hs =
       Dispatched (found + (if counted T tag then 1 else 0)) OK hs1
     \<and> dispatch T h tag cf key val blob 0 OK hs = Dispatched (if counted T tag then 1 else 0) OK hs1)"
proof -
  have p: "\<And>cf key val hs. \<exists>x. PutCF h cf key val hs = (OK, x)"
    using assms unfolding runs_to_end_def by (metis prod.collapse)
  have d: "\<And>cf key hs. \<exists>x. DeleteCF h cf key hs = (OK, x)"
    using assms unfolding runs_to_end_def by (metis prod.collapse)
  have sd: "\<And>cf key hs. \<exists>x. SingleDeleteCF h cf key hs = (OK, x)"
    using assms unfolding runs_to_end_def by (metis prod.collapse)
  have m: "\<And>cf key val hs. \<exists>x. MergeCF h cf key val hs = (OK, x)"
    using assms unfolding runs_to_end_def by (metis prod.collapse)
  show ?thesis
    using p [of cf key val hs] d [of cf key hs] sd [of cf key hs] m [of cf key val hs]
    by (auto simp: dispatch_def counted_def)
qed


lemma Iterate_loop_runs_to_end:
  assumes h: "runs_to_end h"
  shows "Iterate_loop T h input key val blob found OK hs =
    Inr (case read_all T input key val blob of
           (rs, None) \<Rightarrow> LoopExit (found + int (num_counted T rs)) OK (visit_all T h rs hs)
         | (rs, Some e) \<Rightarrow> LoopReturn e (snd (Continue h (visit_all T h rs hs))))"
proof (induction T input key val blob arbitrary: found hs rule: read_all.induct)
  case (1 T input key val blob)
  show ?case
  proof (cases "input = []")
    case True
    then show ?thesis
      by (simp add: Iterate_loop.simps read_all.simps num_counted_def visit_all_def)
  next
    case False
    from h obtain hs1 where c: "Continue h hs = (True, hs1)"
      unfolding runs_to_end_def by (metis (full_types) prod.collapse)
    then have hs1: "snd (Continue h hs) = hs1" by simp
    from False obtain r where r: "ReadRecordFromWriteBatch T input key val blob = Inr r"
      using ReadRecord_nonempty by blast
    show ?thesis
    proof (cases r)
      case (ReadFailed e)
      with False r c show ?thesis
        by (simp add: Iterate_loop.simps [of T h input] read_all.simps [of T input]
            num_counted_def visit_all_def)
    next
      case (ReadOK input1 tag cf key1 val1 blob1)
      let ?hs1 = "hs1"
      let ?c = "if counted T tag then 1 else (0::int)"
      have known: "counted T tag \<or> tag = kTypeLogData T"
        using r ReadOK by (auto dest: ReadRecord_known_tag)
      then have nu: "dispatch T h tag cf key1 val1 blob1 found OK ?hs1 \<noteq> UnknownTag"
        by (rule dispatch_known)
      with dispatch_runs_to_end [OF h, of T tag cf key1 val1 blob1 found ?hs1]
      obtain hs2 where
        d: "dispatch T h tag cf key1 val1 blob1 found OK ?hs1 = Dispatched (found + ?c) OK hs2"
        and d0: "dispatch T h tag cf key1 val1 blob1 0 OK ?hs1 = Dispatched ?c OK hs2"
        by blast
      have v: "visit T h (tag, cf, key1, val1, blob1) hs = hs2"
        by (simp add: visit_def hs1 d0)
      have ih: "Iterate_loop T h input1 key1 val1 blob1 (found + ?c) OK hs2 =
        Inr (case read_all T input1 key1 val1 blob1 of
           (rs, None) \<Rightarrow> LoopExit (found + ?c + int (num_counted T rs)) OK (visit_all T h rs hs2)
         | (rs, Some e) \<Rightarrow> LoopReturn e (snd (Continue h (visit_all T h rs hs2))))"
        using "1.IH" [OF False r ReadOK] .
      have lhs: "Iterate_loop T h input key val blob found OK hs =
          Iterate_loop T h input1 key1 val1 blob1 (found + ?c) OK hs2"
        using False r ReadOK c d by (simp add: Iterate_loop.simps [of T h input])
      obtain rs e where ra: "read_all T input1 key1 val1 blob1 = (rs, e)"
        by (cases "read_all T input1 key1 val1 blob1")
      have rall: "read_all T input key val blob = ((tag, cf, key1, val1, blob1) # rs, e)"
        using False r ReadOK ra by (simp add: read_all.simps [of T input])
      show ?thesis
        unfolding lhs ih rall ra
        by (cases e) (simp_all add: num_counted_def visit_all_def v)
    qed
  qed
qed

lemma Iterate_loop_no_fault: "Iterate_loop T h input key val blob found s hs \<noteq> Inl f"
proof (induction T h input key val blob found s hs rule: Iterate_loop.induct)
  case (1 T handler input key val blob found s hs)
  show ?case
  proof (cases "ok s \<and> input \<noteq> []")
    case False
    then have "Iterate_loop T handler input key val blob found s hs = Inr (LoopExit found s hs)"
      by (subst Iterate_loop.simps) (simp only: if_False)
    then show ?thesis by simp
  next
    case True
    obtain c hs1 where c: "Continue handler hs = (c, hs1)" by (cases "Continue handler hs")
    from True obtain r where r: "ReadRecordFromWriteBatch T input key val blob = Inr r"
      using ReadRecord_nonempty by blast
    show ?thesis
    proof (cases c)
      case False
      with True c show ?thesis by (simp add: Iterate_loop.simps [of T handler input])
    next
      case ct: True
      show ?thesis
      proof (cases r)
        case (ReadFailed e)
        with True c ct r show ?thesis by (simp add: Iterate_loop.simps [of T handler input])
      next
        case (ReadOK input1 tag cf key1 val1 blob1)
        show ?thesis
        proof (cases "dispatch T handler tag cf key1 val1 blob1 found s hs1")
          case UnknownTag
          with True c ct r ReadOK show ?thesis
            by (simp add: Iterate_loop.simps [of T handler input])
        next
          case (Dispatched found1 s1 hs2)
          have "Iterate_loop T handler input1 key1 val1 blob1 found1 s1 hs2 \<noteq> Inl f"
            using "1.IH" True c ct r ReadOK Dispatched by simp
          with True c ct r ReadOK Dispatched show ?thesis
            by (simp add: Iterate_loop.simps [of T handler input])
        qed
      qed
    qed
  qed
qed

lemma Iterate_no_fault: "Iterate T h hs b \<noteq> Inl f"
  using Iterate_loop_no_fault [of T h "drop kHeader (rep b)" "[]" "[]" "[]" 0 OK hs]
  by (auto simp: Iterate_def split: sum.splits loop_outcome.splits)

lemma runs_to_end_classifier: "runs_to_end BatchContentClassifier"
  by (simp add: runs_to_end_def BatchContentClassifier_def Handler_Continue_def)

lemma visit_classifier:
  "visit T BatchContentClassifier r fl = fl OR flag_of T (fst r)"
  by (cases r)
     (simp add: visit_def dispatch_def BatchContentClassifier_def Handler_Continue_def
        Handler_LogData_def flag_of_def)

lemma visit_all_classifier:
  "visit_all T BatchContentClassifier rs fl = fold (\<lambda>r f. f OR flag_of T (fst r)) rs fl"
  unfolding visit_all_def
  by (induction rs arbitrary: fl) (simp_all add: visit_classifier)

lemma flag_of_not_DEFERRED: "flag_of T tag AND DEFERRED = 0"
  by (simp add: flag_of_def DEFERRED_def HAS_PUT_def HAS_DELETE_def HAS_SINGLE_DELETE_def
      HAS_MERGE_def)

lemma fold_flags_not_DEFERRED:
  "fl AND DEFERRED = 0 \<Longrightarrow> fold (\<lambda>r f. f OR flag_of T (fst r)) rs fl AND DEFERRED = 0"
  by (induction rs arbitrary: fl) (simp_all add: bit.conj_disj_distrib2 flag_of_not_DEFERRED)

lemmas read_defs = ReadRecordFromWriteBatch_def read_key_value_def read_key_def read_cf_def
  GetLengthPrefixedSlice_def GetVarint32_def sample_tags_def

lemma batch_two_puts_eq: "batch_two_puts = \<lparr> save_points = None, content_flags = 2,
   rep = [0,0,0,0,0,0,0,0, 2,0,0,0, 1, 1, 97, 1, 49, 1, 1, 98, 1, 50] \<rparr>"
  by (simp add: batch_two_puts_def eval_defs)

lemma batch_one_delete_eq: "batch_one_delete = \<lparr> save_points = None, content_flags = 4,
   rep = [0,0,0,0,0,0,0,0, 1,0,0,0, 0, 1, 107] \<rparr>"
  by (simp add: batch_one_delete_def eval_defs)

lemma stop_after_simps:
  "PutCF (stop_after n) = (\<lambda>cf key val seen. (OK, Suc seen))"
  "Continue (stop_after n) = (\<lambda>seen. (seen < n, seen))"
  by (simp_all add: stop_after_def)

lemma classifier_simps:
  "PutCF BatchContentClassifier = (\<lambda>cf key val fl. (OK, fl OR HAS_PUT))"
  "DeleteCF BatchContentClassifier = (\<lambda>cf key fl. (OK, fl OR HAS_DELETE))"
  "SingleDeleteCF BatchContentClassifier = (\<lambda>cf key fl. (OK, fl OR HAS_SINGLE_DELETE))"
  "MergeCF BatchContentClassifier = (\<lambda>cf key val fl. (OK, fl OR HAS_MERGE))"
  "LogData BatchContentClassifier = Handler_LogData"
  "Continue BatchContentClassifier = Handler_Continue"
  by (simp_all add: BatchContentClassifier_def)

lemma inserter_simps:
  "PutCF (MemTableInserter T ins env) = MemTableInserter_PutCF T ins env"
  "DeleteCF (MemTableInserter T ins env) = MemTableInserter_DeleteCF T ins env"
  "SingleDeleteCF (MemTableInserter T ins env) = MemTableInserter_SingleDeleteCF T ins env"
  "MergeCF (MemTableInserter T ins env) = MemTableInserter_MergeCF T ins env"
  "LogData (MemTableInserter T ins env) = Handler_LogData"
  "Continue (MemTableInserter T ins env) = Handler_Continue"
  by (simp_all add: MemTableInserter_def)

lemmas sample_env_simps = sample_env_def sample_inserter_def SeekToColumnFamily_def
  CheckMemtableFull_def

lemma Iterate_runs_to_end:
  assumes h: "runs_to_end h" and len: "kHeader \<le> length (rep b)"
    and ra: "read_all T (drop kHeader (rep b)) [] [] [] = (rs, e)"
  shows "Iterate T h hs b =
    Inr (case e of
           Some err \<Rightarrow> (err, snd (Continue h (visit_all T h rs hs)))
         | None \<Rightarrow>
             (if int (num_counted T rs) \<noteq> Count b then Corruption ''WriteBatch has wrong count''
              else OK, visit_all T h rs hs))"
  using len
  by (cases e)
     (simp_all add: Iterate_def Iterate_loop_runs_to_end [OF h] ra)

lemma read_all_count_2_one_put:
  "read_all sample_tags (drop kHeader (rep batch_count_2_one_put)) [] [] [] =
     ([(5, 7, [97], [49], [])], None)"
  by (simp add: batch_count_2_one_put_def WriteBatch_of_string_def kHeader_def
      read_all.simps read_defs)

lemma Count_count_2_one_put: "Count batch_count_2_one_put = 2"
  by (simp add: batch_count_2_one_put_def WriteBatch_of_string_def Count_def DecodeFixed32_def)

subsection \<open>The iteration along one run of a handler\<close>

lemma read_all_Cons:
  assumes "read_all T input key val blob = ((tag, cf, key1, val1, blob1) # rs, e)"
  shows "\<exists>input1. input \<noteq> []
     \<and> ReadRecordFromWriteBatch T input key val blob = Inr (ReadOK input1 tag cf key1 val1 blob1)
     \<and> read_all T input1 key1 val1 blob1 = (rs, e)"
proof (cases "input = []")
  case True
  with assms show ?thesis by (simp add: read_all.simps [of T "[]"])
next
  case False
  then obtain r where r: "ReadRecordFromWriteBatch T input key val blob = Inr r"
    using ReadRecord_nonempty by blast
  show ?thesis
  proof (cases r)
    case (ReadFailed err)
    with assms False r show ?thesis by (simp add: read_all.simps [of T input])
  next
    case (ReadOK input1 t c k v bl)
    with assms False r show ?thesis
      by (simp add: read_all.simps [of T input] split: prod.splits)
  qed
qed

lemma read_all_Nil:
  assumes "read_all T input key val blob = ([], None)"
  shows "input = []"
proof (rule ccontr)
  assume ne: "input \<noteq> []"
  then obtain r where r: "ReadRecordFromWriteBatch T input key val blob = Inr r"
    using ReadRecord_nonempty by blast
  with assms ne show False
    by (cases r) (simp_all add: read_all.simps [of T input] split: prod.splits)
qed

lemma dispatch_found:
  assumes "dispatch T h tag cf key val blob 0 OK hs = Dispatched f s1 hs1"
  shows "dispatch T h tag cf key val blob found OK hs = Dispatched (found + f) s1 hs1"
    and "f = (if counted T tag then 1 else 0)"
proof -
  obtain p1 p2 where p: "PutCF h cf key val hs = (p1, p2)" by (cases "PutCF h cf key val hs")
  obtain d1 d2 where d: "DeleteCF h cf key hs = (d1, d2)" by (cases "DeleteCF h cf key hs")
  obtain e1 e2 where e: "SingleDeleteCF h cf key hs = (e1, e2)"
    by (cases "SingleDeleteCF h cf key hs")
  obtain m1 m2 where m: "MergeCF h cf key val hs = (m1, m2)"
    by (cases "MergeCF h cf key val hs")
  define A where "A \<longleftrightarrow> tag = kTypeColumnFamilyValue T \<or> tag = kTypeValue T"
  define B where "B \<longleftrightarrow> tag = kTypeColumnFamilyDeletion T \<or> tag = kTypeDeletion T"
  define C where "C \<longleftrightarrow> tag = kTypeColumnFamilySingleDeletion T \<or> tag = kTypeSingleDeletion T"
  define D where "D \<longleftrightarrow> tag = kTypeColumnFamilyMerge T \<or> tag = kTypeMerge T"
  define E where "E \<longleftrightarrow> tag = kTypeLogData T"
  have dd: "dispatch T h tag cf key val blob n OK hs =
      (if A then Dispatched (n + 1) p1 p2
       else if B then Dispatched (n + 1) d1 d2
       else if C then Dispatched (n + 1) e1 e2
       else if D then Dispatched (n + 1) m1 m2
       else if E then Dispatched n OK (LogData h blob hs)
       else UnknownTag)" for n
    unfolding dispatch_def A_def B_def C_def D_def E_def p d e m by simp
  have cnt: "counted T tag \<longleftrightarrow> A \<or> B \<or> C \<or> D"
    unfolding counted_def A_def B_def C_def D_def by blast
  consider (a) A | (b) "\<not> A" B | (c) "\<not> A" "\<not> B" C | (d) "\<not> A" "\<not> B" "\<not> C" D
    | (e) "\<not> A" "\<not> B" "\<not> C" "\<not> D" E
    | (u) "\<not> A" "\<not> B" "\<not> C" "\<not> D" "\<not> E"
    by blast
  then have "dispatch T h tag cf key val blob found OK hs = Dispatched (found + f) s1 hs1
      \<and> f = (if counted T tag then 1 else 0)"
  proof cases
    case a
    with assms show ?thesis by (simp add: dd cnt)
  next
    case b
    with assms show ?thesis by (simp add: dd cnt)
  next
    case c
    with assms show ?thesis by (simp add: dd cnt)
  next
    case d
    with assms show ?thesis by (simp add: dd cnt)
  next
    case e
    with assms show ?thesis by (simp add: dd cnt)
  next
    case u
    with assms show ?thesis by (simp add: dd cnt)
  qed
  then show "dispatch T h tag cf key val blob found OK hs = Dispatched (found + f) s1 hs1"
    and "f = (if counted T tag then 1 else 0)"
    by simp_all
qed

lemma Iterate_loop_empty: "Iterate_loop T h [] key val blob found s hs = Inr (LoopExit found s hs)"
  by (simp add: Iterate_loop.simps [of T h "[]"])

lemma Iterate_loop_not_ok:
  "\<not> ok s \<Longrightarrow> Iterate_loop T h input key val blob found s hs = Inr (LoopExit found s hs)"
  by (simp add: Iterate_loop.simps [of T h input])

lemma Iterate_loop_step:
  assumes ne: "input \<noteq> []"
    and r: "ReadRecordFromWriteBatch T input key val blob = Inr (ReadOK input1 tag cf key1 val1 blob1)"
    and c: "fst (Continue h hs)"
    and d: "dispatch T h tag cf key1 val1 blob1 0 OK (snd (Continue h hs)) = Dispatched f s1 hs1"
  shows "Iterate_loop T h input key val blob found OK hs =
     Iterate_loop T h input1 key1 val1 blob1 (found + f) s1 hs1"
proof -
  obtain hs0 where c0: "Continue h hs = (True, hs0)"
    using c by (cases "Continue h hs") auto
  with d have "dispatch T h tag cf key1 val1 blob1 0 OK hs0 = Dispatched f s1 hs1" by simp
  then have "dispatch T h tag cf key1 val1 blob1 found OK hs0 = Dispatched (found + f) s1 hs1"
    by (rule dispatch_found)
  with ne r c0 show ?thesis by (simp add: Iterate_loop.simps [of T h input])
qed

lemma Iterate_loop_runs_through:
  assumes "read_all T input key val blob = (pre @ post, e)" and "runs_through T h pre hs"
  shows "\<exists>input1 key1 val1 blob1. read_all T input1 key1 val1 blob1 = (post, e)
     \<and> Iterate_loop T h input key val blob found OK hs =
         Iterate_loop T h input1 key1 val1 blob1 (found + int (num_counted T pre)) OK
           (visit_all T h pre hs)"
  using assms
proof (induction pre arbitrary: input key val blob found hs)
  case Nil
  then show ?case by (auto simp: num_counted_def visit_all_def)
next
  case (Cons p pre)
  obtain tag cf key1 val1 blob1 where p: "p = (tag, cf, key1, val1, blob1)" by (cases p)
  from Cons.prems(1) obtain input1 where ne: "input \<noteq> []"
    and r: "ReadRecordFromWriteBatch T input key val blob = Inr (ReadOK input1 tag cf key1 val1 blob1)"
    and ra: "read_all T input1 key1 val1 blob1 = (pre @ post, e)"
    unfolding p using read_all_Cons [of T input key val blob tag cf key1 val1 blob1 "pre @ post" e]
    by auto
  from Cons.prems(2) obtain f s1 hs1 where c: "fst (Continue h hs)"
    and d: "dispatch T h tag cf key1 val1 blob1 0 OK (snd (Continue h hs)) = Dispatched f s1 hs1"
    and s1: "ok s1" and rt: "runs_through T h pre hs1"
    unfolding p by (auto split: dispatched.splits)
  from s1 have s1': "s1 = OK" by (cases s1) simp_all
  have f: "f = (if counted T tag then 1 else 0)" using d by (rule dispatch_found)
  have v: "visit T h p hs = hs1" by (simp add: visit_def p d)
  have step: "Iterate_loop T h input key val blob found OK hs =
     Iterate_loop T h input1 key1 val1 blob1 (found + f) OK hs1"
    using Iterate_loop_step [OF ne r c d] s1' by simp
  from Cons.IH [OF ra rt, of "found + f"] obtain input2 key2 val2 blob2 where
    ra2: "read_all T input2 key2 val2 blob2 = (post, e)"
    and it: "Iterate_loop T h input1 key1 val1 blob1 (found + f) OK hs1 =
       Iterate_loop T h input2 key2 val2 blob2 (found + f + int (num_counted T pre)) OK
         (visit_all T h pre hs1)"
    by blast
  have n: "found + f + int (num_counted T pre) = found + int (num_counted T (p # pre))"
    by (simp add: num_counted_def p f)
  have va: "visit_all T h (p # pre) hs = visit_all T h pre hs1"
    by (simp add: visit_all_def v)
  note it' = it [unfolded n, folded va]
  from step it' have "Iterate_loop T h input key val blob found OK hs =
      Iterate_loop T h input2 key2 val2 blob2 (found + int (num_counted T (p # pre))) OK
        (visit_all T h (p # pre) hs)"
    by (rule trans)
  with ra2 show ?case by blast
qed

lemma Iterate_runs_through:
  assumes len: "kHeader \<le> length (rep b)"
    and ra: "read_all T (drop kHeader (rep b)) [] [] [] = (rs, None)"
    and rt: "runs_through T h rs hs"
  shows "Iterate T h hs b =
    Inr (if int (num_counted T rs) \<noteq> Count b then Corruption ''WriteBatch has wrong count''
         else OK, visit_all T h rs hs)"
proof -
  from ra have ra': "read_all T (drop kHeader (rep b)) [] [] [] = (rs @ [], None)" by simp
  from Iterate_loop_runs_through [OF ra' rt, of 0]
  obtain input1 key1 val1 blob1 where e: "read_all T input1 key1 val1 blob1 = ([], None)"
    and it: "Iterate_loop T h (drop kHeader (rep b)) [] [] [] 0 OK hs =
       Iterate_loop T h input1 key1 val1 blob1 (0 + int (num_counted T rs)) OK (visit_all T h rs hs)"
    by blast
  from e have "input1 = []" by (rule read_all_Nil)
  with it have "Iterate_loop T h (drop kHeader (rep b)) [] [] [] 0 OK hs =
      Inr (LoopExit (int (num_counted T rs)) OK (visit_all T h rs hs))"
    by (simp add: Iterate_loop_empty)
  with len show ?thesis by (simp add: Iterate_def)
qed

lemma Iterate_callback_fails:
  assumes len: "kHeader \<le> length (rep b)"
    and ra: "read_all T (drop kHeader (rep b)) [] [] [] = (pre @ (tag, cf, key, val, blob) # post, e)"
    and rt: "runs_through T h pre hs"
    and c: "fst (Continue h (visit_all T h pre hs))"
    and d: "dispatch T h tag cf key val blob 0 OK (snd (Continue h (visit_all T h pre hs))) =
              Dispatched f s1 hs1"
    and s1: "\<not> ok s1"
  shows "Iterate T h hs b = Inr (s1, hs1)"
proof -
  from Iterate_loop_runs_through [OF ra rt, of 0]
  obtain input1 key1 val1 blob1 where
    e: "read_all T input1 key1 val1 blob1 = ((tag, cf, key, val, blob) # post, e)"
    and it: "Iterate_loop T h (drop kHeader (rep b)) [] [] [] 0 OK hs =
       Iterate_loop T h input1 key1 val1 blob1 (0 + int (num_counted T pre)) OK
         (visit_all T h pre hs)"
    by blast
  from read_all_Cons [OF e] obtain input2 where ne: "input1 \<noteq> []"
    and r: "ReadRecordFromWriteBatch T input1 key1 val1 blob1 =
              Inr (ReadOK input2 tag cf key val blob)"
    by blast
  have "Iterate_loop T h input1 key1 val1 blob1 (0 + int (num_counted T pre)) OK
         (visit_all T h pre hs) =
       Iterate_loop T h input2 key val blob (0 + int (num_counted T pre) + f) s1 hs1"
    by (rule Iterate_loop_step [OF ne r c d])
  also have "\<dots> = Inr (LoopExit (0 + int (num_counted T pre) + f) s1 hs1)"
    using s1 by (rule Iterate_loop_not_ok)
  finally have "Iterate_loop T h (drop kHeader (rep b)) [] [] [] 0 OK hs =
      Inr (LoopExit (0 + int (num_counted T pre) + f) s1 hs1)"
    using it by simp
  with len s1 show ?thesis by (simp add: Iterate_def)
qed

lemma read_all_count_2_default_put:
  "read_all sample_tags (drop kHeader (rep batch_count_2_default_put)) [] [] [] =
     ([(1, 0, [97], [49], [])], None)"
  by (simp add: batch_count_2_default_put_def WriteBatch_of_string_def kHeader_def
      read_all.simps read_defs)

lemma strict_applier_default_put:
  "dispatch sample_tags (MemTableInserter sample_tags sample_inserter sample_env)
     1 0 [97] [49] [] 0 OK (0, []) = Dispatched 1 OK (1, [(0, 1, [97], [49])])"
  by (simp add: dispatch_def inserter_simps MemTableInserter_PutCF_def sample_env_simps
      sample_tags_def)

lemma strict_applier_unknown_family:
  "dispatch sample_tags (MemTableInserter sample_tags sample_inserter sample_env)
     5 7 [97] [49] [] 0 OK (0, []) =
   Dispatched 1 (InvalidArgument ''Invalid column family specified in write batch'') (1, [])"
  by (simp add: dispatch_def inserter_simps MemTableInserter_PutCF_def sample_env_simps
      sample_tags_def)

subsection \<open>A single put\<close>

lemma put_abc:
  "Put T (WriteBatch_new n) 0 [97, 98, 99] [120, 121, 122] =
     \<lparr> save_points = None, content_flags = HAS_PUT,
       rep = [0, 0, 0, 0, 0, 0, 0, 0, 1, 0, 0, 0,
              kTypeValue T, 3, 97, 98, 99, 3, 120, 121, 122] \<rparr>"
  by (simp add: Put_def WriteBatch_new_def resize_empty_kHeader SetCount_def Count_def
      DecodeFixed32_def EncodeFixed32_def tag_and_cf_def PutLengthPrefixedSlice_def
      PutVarint32_def varint32_bytes_small set_flag_def Let_def)

text \<open>
  C8: on a fresh batch, after one put of key "abc" (bytes 97, 98, 99) and value "xyz"
  (bytes 120, 121, 122) to the default column family 0, the bytes after the 12-byte
  header are the tag \<open>kTypeValue\<close>, 3, 'a', 'b', 'c', 3, 'x', 'y', 'z'; the count is 1;
  \<open>HasPut\<close> answers true and \<open>HasDelete\<close>, \<open>HasSingleDelete\<close> and \<open>HasMerge\<close> answer
  false, each leaving the batch as it is. This holds for every tag table and every
  reservation hint.
\<close>

theorem single_put_default_family:
  fixes T :: ValueType and n :: nat
  defines "b \<equiv> Put T (WriteBatch_new n) 0 [97, 98, 99] [120, 121, 122]"
  shows "drop kHeader (rep b) = [kTypeValue T, 3, 97, 98, 99, 3, 120, 121, 122]
     \<and> Count b = 1
     \<and> HasPut T b = Inr (True, b)
     \<and> HasDelete T b = Inr (False, b)
     \<and> HasSingleDelete T b = Inr (False, b)
     \<and> HasMerge T b = Inr (False, b)"
  unfolding b_def put_abc
  by (simp add: kHeader_def Count_def DecodeFixed32_def HasPut_def HasDelete_def
      HasSingleDelete_def HasMerge_def has_flag_def ComputeContentFlags_def
      HAS_PUT_def HAS_DELETE_def HAS_SINGLE_DELETE_def HAS_MERGE_def DEFERRED_def)

subsection \<open>Appending one batch to another\<close>

text \<open>
  C9: for two batches \<open>dst\<close> and \<open>src\<close> of at least 12 bytes each, \<open>Append dst src\<close>
  makes the payload of \<open>dst\<close> its old payload followed by the payload of \<open>src\<close> (bytes
  12 to the end), sets the count to the sum of the two counts (the count field is a
  fixed32, so the sum is taken in 32 bits: it is the exact sum whenever that fits an
  \<open>int\<close>), ORs the content flags of \<open>src\<close> into those of \<open>dst\<close>, and keeps the first
  eight bytes of \<open>dst\<close>, its sequence field. The sequence of \<open>src\<close> is discarded:
  putting any other eight bytes \<open>s8\<close> in its place gives the same result.
\<close>

theorem append_splices:
  assumes dst: "kHeader \<le> length (rep dst)" and src: "kHeader \<le> length (rep src)"
    and s8: "length s8 = 8"
  shows "drop kHeader (rep (Append dst src)) = drop kHeader (rep dst) @ drop kHeader (rep src)
     \<and> Count (Append dst src) = sint (word_of_int (Count dst + Count src) :: 32 word)
     \<and> (- (2 ^ 31) \<le> Count dst + Count src \<and> Count dst + Count src < 2 ^ 31
          \<longrightarrow> Count (Append dst src) = Count dst + Count src)
     \<and> content_flags (Append dst src) = content_flags dst OR content_flags src
     \<and> take 8 (rep (Append dst src)) = take 8 (rep dst)
     \<and> Sequence (Append dst src) = Sequence dst
     \<and> save_points (Append dst src) = save_points dst
     \<and> Append dst (src\<lparr> rep := s8 @ drop 8 (rep src) \<rparr>) = Append dst src"
proof -
  let ?n = "Count dst + Count src"
  have r: "rep (Append dst src) =
      take 8 (rep dst) @ EncodeFixed32 (word_of_int ?n) @ drop 12 (rep dst) @ drop 12 (rep src)"
    by (simp add: Append_def Let_def rep_SetCount kHeader_def)
  have l8: "8 \<le> length (rep dst)" using dst by (simp add: kHeader_def)
  have c1: "drop kHeader (rep (Append dst src)) = drop kHeader (rep dst) @ drop kHeader (rep src)"
    using l8 by (simp add: r kHeader_def)
  have c2: "Count (Append dst src) = sint (word_of_int ?n :: 32 word)"
    using l8 by (simp add: Count_def r DecodeFixed32_EncodeFixed32)
  have c3: "- (2 ^ 31) \<le> ?n \<and> ?n < 2 ^ 31 \<longrightarrow> Count (Append dst src) = ?n"
  proof
    assume "- (2 ^ 31) \<le> ?n \<and> ?n < 2 ^ 31"
    then have "signed_take_bit 31 ?n = ?n"
      by (intro signed_take_bit_int_eq_self) simp_all
    moreover have "sint (word_of_int ?n :: 32 word) = signed_take_bit 31 ?n"
      by (simp only: sint_sbintrunc') simp
    ultimately show "Count (Append dst src) = ?n"
      by (simp only: c2)
  qed
  have c4: "content_flags (Append dst src) = content_flags dst OR content_flags src"
    by (simp add: Append_def Let_def SetCount_def)
  have c5: "take 8 (rep (Append dst src)) = take 8 (rep dst)"
    using l8 by (simp add: r)
  have c6: "Sequence (Append dst src) = Sequence dst"
    unfolding Sequence_def by (rule DecodeFixed64_take) (rule c5)
  have c7: "save_points (Append dst src) = save_points dst"
    by (simp add: Append_def Let_def SetCount_def)
  have "Count (src\<lparr> rep := s8 @ drop 8 (rep src) \<rparr>) = Count src"
    using s8 by (simp add: Count_def)
  moreover have "drop kHeader (s8 @ drop 8 (rep src)) = drop kHeader (rep src)"
    using s8 by (simp add: kHeader_def)
  ultimately have c8: "Append dst (src\<lparr> rep := s8 @ drop 8 (rep src) \<rparr>) = Append dst src"
    by (simp add: Append_def Let_def)
  from c1 c2 c3 c4 c5 c6 c7 c8 show ?thesis by blast
qed

theorem append_splices_witness:
  "kHeader \<le> length (rep batch_A) \<and> kHeader \<le> length (rep batch_B)
   \<and> Sequence batch_B = 99
   \<and> drop kHeader (rep (Append batch_A batch_B)) =
        drop kHeader (rep batch_A) @ [0, 1, 98, 2, 1, 99, 1, 51]
   \<and> Count (Append batch_A batch_B) = 3
   \<and> content_flags (Append batch_A batch_B) = HAS_PUT OR HAS_DELETE OR HAS_MERGE
   \<and> Sequence (Append batch_A batch_B) = 0"
proof -
  have a: "kHeader \<le> length (rep batch_A)" by (simp add: batch_A_eq kHeader_def)
  have b: "kHeader \<le> length (rep batch_B)" by (simp add: batch_B_eq kHeader_def)
  have s: "length (take 8 (rep batch_B)) = 8" by (simp add: batch_B_eq)
  have ca: "Count batch_A = 1" by (simp add: batch_A_eq Count_def DecodeFixed32_def)
  have cb: "Count batch_B = 2" by (simp add: batch_B_eq Count_def DecodeFixed32_def)
  have sa: "Sequence batch_A = 0" by (simp add: batch_A_eq Sequence_def DecodeFixed64_def)
  have sb: "Sequence batch_B = 99" by (simp add: batch_B_eq Sequence_def DecodeFixed64_def)
  have db: "drop kHeader (rep batch_B) = [0, 1, 98, 2, 1, 99, 1, 51]"
    by (simp add: batch_B_eq kHeader_def)
  have fa: "content_flags batch_A = HAS_PUT" by (simp add: batch_A_eq HAS_PUT_def)
  have fb: "content_flags batch_B = HAS_DELETE OR HAS_MERGE"
    by (simp add: batch_B_eq HAS_DELETE_def HAS_MERGE_def)
  show ?thesis
    using append_splices [OF a b s] a b
    by (simp add: ca cb sa sb db fa fb)
qed

text \<open>
  The count is not the plain sum in every case: with the counts \<open>2 ^ 31 - 1\<close> and 1 in
  the two headers the sum does not fit the \<open>int\<close> that \<open>Count\<close> returns, and the count
  of the result reads as \<open>- (2 ^ 31)\<close>.
\<close>

theorem append_count_overflow_counterexample:
  "kHeader \<le> length (rep batch_count_max) \<and> kHeader \<le> length (rep batch_count_1)
   \<and> Count batch_count_max = 2147483647 \<and> Count batch_count_1 = 1
   \<and> Count (Append batch_count_max batch_count_1) = - 2147483648"
  by (simp add: batch_count_max_def batch_count_1_def WriteBatch_of_string_def kHeader_def
      Append_def Let_def SetCount_def Count_def DecodeFixed32_def EncodeFixed32_def)


subsection \<open>The sequence number of the memory-table applier\<close>

text \<open>
  A put and a merge leave the applier with \<open>sequence_\<close> one higher on every path, also
  when the column family is missing or the log-number check skips the record. A delete
  or single delete does so on every path but one.
\<close>

lemma PutCF_advances_sequence:
  "fst (snd (MemTableInserter_PutCF T ins env cf key val (sequence, w))) = sequence + 1"
  by (simp add: MemTableInserter_PutCF_def Let_def split: prod.splits bool.splits)

lemma MergeCF_advances_sequence:
  "fst (snd (MemTableInserter_MergeCF T ins env cf key val (sequence, w))) = sequence + 1"
  by (simp add: MemTableInserter_MergeCF_def Let_def split: prod.splits bool.splits)

lemma DeleteImpl_sequence:
  "fst (snd (DeleteImpl ins env cf key delete_type (sequence, w))) =
     (case SeekToColumnFamily ins env cf w of
        (found, st, w1) \<Rightarrow>
          if found \<and> \<not> dont_filter_deletes ins \<and> filter_deletes (GetMemTableOptions env w1)
               \<and> \<not> KeyMayExist env sequence key w1
          then sequence else sequence + 1)"
  by (simp add: DeleteImpl_def Let_def split: prod.splits bool.splits)

text \<open>
  C1: every record the applier handles is meant to advance its sequence number by one,
  whatever happens to the record. \<open>DeleteImpl\<close> does not do so for a delete that the
  pre-existence filter skips: when the column family is found and current, deletes are
  filtered (\<open>dont_filter_deletes\<close> is false and the table has \<open>filter_deletes\<close>) and
  \<open>KeyMayExist\<close> answers false, it returns OK with \<open>sequence_\<close> unchanged. The paths
  that skip a record after a failed seek increment it first.
\<close>

theorem filtered_delete_keeps_sequence:
  assumes "SeekToColumnFamily ins env cf w = (True, st, w1)"
    and "\<not> dont_filter_deletes ins"
    and "filter_deletes (GetMemTableOptions env w1)"
    and "\<not> KeyMayExist env sequence key w1"
  shows "DeleteImpl ins env cf key delete_type (sequence, w) =
     (OK, sequence, RecordTick env NUMBER_FILTERED_DELETES w1)"
  using assms by (simp add: DeleteImpl_def)

theorem filtered_delete_keeps_sequence_witness:
  "SeekToColumnFamily sample_inserter sample_env 0 [] = (True, OK, [])
   \<and> \<not> dont_filter_deletes sample_inserter
   \<and> filter_deletes (GetMemTableOptions sample_env [])
   \<and> \<not> KeyMayExist sample_env 0 [107] []
   \<and> DeleteImpl sample_inserter sample_env 0 [107] (kTypeDeletion sample_tags) (0, []) = (OK, 0, [])
   \<and> Count batch_one_delete = 1
   \<and> InsertInto sample_tags sample_inserter sample_env [] batch_one_delete = Inr (OK, 0, [])"
proof -
  have a: "SeekToColumnFamily sample_inserter sample_env 0 [] = (True, OK, [])"
    by (simp add: sample_env_simps)
  have b: "\<not> dont_filter_deletes sample_inserter" by (simp add: sample_inserter_def)
  have c: "filter_deletes (GetMemTableOptions sample_env [])" by (simp add: sample_env_def)
  have d: "\<not> KeyMayExist sample_env 0 [107] []" by (simp add: sample_env_def)
  have e: "RecordTick sample_env NUMBER_FILTERED_DELETES [] = []" by (simp add: sample_env_def)
  have f: "DeleteImpl sample_inserter sample_env 0 [107] (kTypeDeletion sample_tags) (0, [])
      = (OK, 0, [])"
    using filtered_delete_keeps_sequence [OF a b c d, of "kTypeDeletion sample_tags"]
    by (simp add: e)
  have g: "Count batch_one_delete = 1"
    by (simp add: batch_one_delete_eq Count_def DecodeFixed32_def)
  have h: "InsertInto sample_tags sample_inserter sample_env [] batch_one_delete = Inr (OK, 0, [])"
    by (simp add: InsertInto_def Iterate_def batch_one_delete_eq kHeader_def Sequence_def
        DecodeFixed64_def Iterate_loop.simps read_defs dispatch_def inserter_simps
        Handler_Continue_def MemTableInserter_DeleteCF_def f [unfolded sample_tags_def, simplified]
        Count_def DecodeFixed32_def)
  from a b c d f g h show ?thesis by simp
qed

subsection \<open>Iteration: the size check and the count check\<close>

text \<open>
  C2: a buffer shorter than 12 bytes makes \<open>Iterate\<close> return Corruption "malformed
  WriteBatch (too small)", for every handler. A buffer of at least 12 bytes whose
  payload decodes cleanly into records \<open>rs\<close>, with a number of records other than log
  data that differs from the count in the header, makes \<open>Iterate\<close> return Corruption
  "WriteBatch has wrong count" when the handler lets this iteration run to the end of
  the payload: on this run, from its state \<open>hs\<close>, its \<open>Continue\<close> is true before every
  record and the callback of every record returns OK. When instead the records \<open>pre\<close>
  pass and the callback of the next record returns a status \<open>s1\<close> that is not OK,
  \<open>Iterate\<close> returns \<open>s1\<close>, whatever the count and whatever follows in the payload.
\<close>

theorem iterate_too_small_or_wrong_count:
  "(length (rep b) < kHeader \<longrightarrow>
      Iterate T h hs b = Inr (Corruption ''malformed WriteBatch (too small)'', hs))
   \<and> (kHeader \<le> length (rep b)
        \<and> read_all T (drop kHeader (rep b)) [] [] [] = (rs, None)
        \<and> runs_through T h rs hs
        \<and> int (num_counted T rs) \<noteq> Count b \<longrightarrow>
      Iterate T h hs b = Inr (Corruption ''WriteBatch has wrong count'', visit_all T h rs hs))
   \<and> (kHeader \<le> length (rep b)
        \<and> read_all T (drop kHeader (rep b)) [] [] [] = (pre @ (tag, cf, key, val, blob) # post, e)
        \<and> runs_through T h pre hs
        \<and> fst (Continue h (visit_all T h pre hs))
        \<and> dispatch T h tag cf key val blob 0 OK (snd (Continue h (visit_all T h pre hs))) =
              Dispatched f s1 hs1
        \<and> \<not> ok s1 \<longrightarrow>
      Iterate T h hs b = Inr (s1, hs1))"
proof (intro conjI impI)
  assume "length (rep b) < kHeader"
  then show "Iterate T h hs b = Inr (Corruption ''malformed WriteBatch (too small)'', hs)"
    by (simp add: Iterate_def)
next
  assume a: "kHeader \<le> length (rep b)
        \<and> read_all T (drop kHeader (rep b)) [] [] [] = (rs, None)
        \<and> runs_through T h rs hs
        \<and> int (num_counted T rs) \<noteq> Count b"
  then have "Iterate T h hs b =
    Inr (if int (num_counted T rs) \<noteq> Count b then Corruption ''WriteBatch has wrong count''
         else OK, visit_all T h rs hs)"
    by (intro Iterate_runs_through) simp_all
  with a show "Iterate T h hs b =
      Inr (Corruption ''WriteBatch has wrong count'', visit_all T h rs hs)"
    by simp
next
  assume a: "kHeader \<le> length (rep b)
        \<and> read_all T (drop kHeader (rep b)) [] [] [] = (pre @ (tag, cf, key, val, blob) # post, e)
        \<and> runs_through T h pre hs
        \<and> fst (Continue h (visit_all T h pre hs))
        \<and> dispatch T h tag cf key val blob 0 OK (snd (Continue h (visit_all T h pre hs))) =
              Dispatched f s1 hs1
        \<and> \<not> ok s1"
  then show "Iterate T h hs b = Inr (s1, hs1)"
    by (intro Iterate_callback_fails [where pre = pre and post = post and e = e and f = f
          and tag = tag and cf = cf and key = key and val = val and blob = blob]) simp_all
qed

theorem iterate_too_small_or_wrong_count_witness:
  "length (rep batch_too_short) < kHeader
   \<and> Iterate sample_tags (MemTableInserter sample_tags sample_inserter sample_env) (0, [])
        batch_too_short =
       Inr (Corruption ''malformed WriteBatch (too small)'', 0, [])
   \<and> kHeader \<le> length (rep batch_count_2_default_put)
   \<and> read_all sample_tags (drop kHeader (rep batch_count_2_default_put)) [] [] [] =
       ([(1, 0, [97], [49], [])], None)
   \<and> runs_through sample_tags (MemTableInserter sample_tags sample_inserter sample_env)
        [(1, 0, [97], [49], [])] (0, [])
   \<and> int (num_counted sample_tags [(1, 0, [97], [49], [])]) \<noteq> Count batch_count_2_default_put
   \<and> Iterate sample_tags (MemTableInserter sample_tags sample_inserter sample_env) (0, [])
        batch_count_2_default_put =
       Inr (Corruption ''WriteBatch has wrong count'', 1, [(0, 1, [97], [49])])
   \<and> kHeader \<le> length (rep batch_count_2_one_put)
   \<and> read_all sample_tags (drop kHeader (rep batch_count_2_one_put)) [] [] [] =
       ([] @ (5, 7, [97], [49], []) # [], None)
   \<and> Iterate sample_tags (MemTableInserter sample_tags sample_inserter sample_env) (0, [])
        batch_count_2_one_put =
       Inr (InvalidArgument ''Invalid column family specified in write batch'', 1, [])"
proof -
  let ?h = "MemTableInserter sample_tags sample_inserter sample_env"
  have c: "Continue ?h = Handler_Continue" by (simp add: inserter_simps)
  have s: "length (rep batch_too_short) < kHeader"
    by (simp add: batch_too_short_def WriteBatch_of_string_def kHeader_def)
  have l: "kHeader \<le> length (rep batch_count_2_default_put)"
    by (simp add: batch_count_2_default_put_def WriteBatch_of_string_def kHeader_def)
  have rt: "runs_through sample_tags ?h [(1, 0, [97], [49], [])] (0, [])"
    by (simp add: c Handler_Continue_def strict_applier_default_put)
  have n: "int (num_counted sample_tags [(1, 0, [97], [49], [])]) \<noteq> Count batch_count_2_default_put"
    by (simp add: batch_count_2_default_put_def WriteBatch_of_string_def Count_def
        DecodeFixed32_def num_counted_def counted_def sample_tags_def)
  have v: "visit_all sample_tags ?h [(1, 0, [97], [49], [])] (0, []) = (1, [(0, 1, [97], [49])])"
    by (simp add: visit_all_def visit_def c Handler_Continue_def strict_applier_default_put)
  have l7: "kHeader \<le> length (rep batch_count_2_one_put)"
    by (simp add: batch_count_2_one_put_def WriteBatch_of_string_def kHeader_def)
  have ra7: "read_all sample_tags (drop kHeader (rep batch_count_2_one_put)) [] [] [] =
       ([] @ (5, 7, [97], [49], []) # [], None)"
    by (simp add: read_all_count_2_one_put)
  have rt7: "runs_through sample_tags ?h [] (0, [])" by simp
  have c7: "fst (Continue ?h (visit_all sample_tags ?h [] (0, [])))"
    by (simp add: c Handler_Continue_def)
  have d7: "dispatch sample_tags ?h 5 7 [97] [49] [] 0 OK
      (snd (Continue ?h (visit_all sample_tags ?h [] (0, [])))) =
     Dispatched 1 (InvalidArgument ''Invalid column family specified in write batch'') (1, [])"
    by (simp add: c Handler_Continue_def visit_all_def strict_applier_unknown_family)
  have nok: "\<not> ok (InvalidArgument ''Invalid column family specified in write batch'')"
    by simp
  note t = iterate_too_small_or_wrong_count
  from t [of batch_too_short sample_tags ?h "(0, [])"] s
  have p1: "Iterate sample_tags ?h (0, []) batch_too_short =
       Inr (Corruption ''malformed WriteBatch (too small)'', 0, [])"
    by blast
  from t [of batch_count_2_default_put sample_tags ?h "(0, [])" "[(1, 0, [97], [49], [])]"]
    l read_all_count_2_default_put rt n
  have p2: "Iterate sample_tags ?h (0, []) batch_count_2_default_put =
       Inr (Corruption ''WriteBatch has wrong count'',
            visit_all sample_tags ?h [(1, 0, [97], [49], [])] (0, []))"
    by blast
  from t [of batch_count_2_one_put sample_tags ?h "(0, [])" _ "[]" 5 7 "[97]" "[49]" "[]" "[]"
      None 1 "InvalidArgument ''Invalid column family specified in write batch''" "(1, [])"]
    l7 ra7 rt7 c7 d7 nok
  have p3: "Iterate sample_tags ?h (0, []) batch_count_2_one_put =
       Inr (InvalidArgument ''Invalid column family specified in write batch'', 1, [])"
    by blast
  from s p1 l read_all_count_2_default_put rt n p2 [unfolded v] l7 ra7 p3
  show ?thesis by (intro conjI)
qed

text \<open>
  Without the condition on the run the second half fails. The batch below holds one
  put to column family 7 under a header count of 2. The applier of a regular write does
  not know family 7, its \<open>PutCF\<close> returns InvalidArgument, and that status is what
  \<open>Iterate\<close> returns: the count is never compared.
\<close>

theorem wrong_count_hidden_by_handler_status_counterexample:
  "read_all sample_tags (drop kHeader (rep batch_count_2_one_put)) [] [] [] =
       ([(5, 7, [97], [49], [])], None)
   \<and> num_counted sample_tags [(5, 7, [97], [49], [])] = 1
   \<and> Count batch_count_2_one_put = 2
   \<and> InsertInto sample_tags sample_inserter sample_env [] batch_count_2_one_put =
       Inr (InvalidArgument ''Invalid column family specified in write batch'', 1, [])"
  by (simp add: read_all_count_2_one_put Count_count_2_one_put num_counted_def counted_def,
      simp add: InsertInto_def Iterate_def batch_count_2_one_put_def WriteBatch_of_string_def
        kHeader_def Sequence_def DecodeFixed64_def Iterate_loop.simps read_defs dispatch_def
        inserter_simps Handler_Continue_def MemTableInserter_PutCF_def sample_env_simps)

subsection \<open>A handler that stops the iteration\<close>

text \<open>
  C6: when the continuation predicate of a handler turns false at a record boundary of
  a well-formed batch, the loop of \<open>Iterate\<close> ends there and no further record is
  dispatched, but the call does not return OK: the count check after the loop compares
  the records dispatched so far with the count in the header. On the well-formed batch
  of two puts, a handler that stops after the first record is handed one record and
  gets Corruption "WriteBatch has wrong count"; a handler that goes on gets OK.
\<close>

theorem early_stop_reports_wrong_count:
  "Iterate sample_tags (stop_after 1) 0 batch_two_puts =
     Inr (Corruption ''WriteBatch has wrong count'', 1)
   \<and> Iterate sample_tags (stop_after 2) 0 batch_two_puts = Inr (OK, 2)"
  by (simp add: Iterate_def batch_two_puts_eq kHeader_def Iterate_loop.simps read_defs
      dispatch_def stop_after_simps Count_def DecodeFixed32_def)

subsection \<open>Reading a record from an empty input\<close>

text \<open>
  On an empty input \<open>ReadRecordFromWriteBatch\<close> returns no status: its first statement
  reads \<open>(*input)[0]\<close>, outside the slice.
\<close>

theorem read_record_empty_input_counterexample:
  "ReadRecordFromWriteBatch sample_tags [] [] [] [] = Inl SliceIndexOutOfRange"
  by (simp add: ReadRecordFromWriteBatch_def)

text \<open>
  C7: \<open>ReadRecordFromWriteBatch\<close> has no test for an empty input; a non-empty input is
  its precondition. On an empty input the read of the tag byte is out of range; on a
  non-empty input the function returns a status (with a record when it is OK). The
  loop of \<open>Iterate\<close> calls it only while the input is not empty, so \<open>Iterate\<close> never
  runs into the out-of-range read, whatever the batch and the handler.
\<close>

theorem read_record_needs_nonempty_input:
  "ReadRecordFromWriteBatch T [] key val blob = Inl SliceIndexOutOfRange
   \<and> (input \<noteq> [] \<longrightarrow> (\<exists>r. ReadRecordFromWriteBatch T input key val blob = Inr r))
   \<and> (\<forall>f. Iterate T h hs b \<noteq> Inl f)"
  using ReadRecord_nonempty [of input T key val blob] Iterate_no_fault [of T h hs b]
  by (simp add: ReadRecordFromWriteBatch_def)

theorem read_record_needs_nonempty_input_witness:
  "[255 :: byte] \<noteq> []
   \<and> ReadRecordFromWriteBatch sample_tags [255] [] [] [] =
       Inr (ReadFailed (Corruption ''unknown WriteBatch tag''))
   \<and> Iterate sample_tags BatchContentClassifier 0 batch_bad_tag =
       Inr (Corruption ''unknown WriteBatch tag'', HAS_PUT)"
proof -
  have "\<exists>r. ReadRecordFromWriteBatch sample_tags [255] [] [] [] = Inr r"
    and "\<forall>f. Iterate sample_tags BatchContentClassifier 0 batch_bad_tag \<noteq> Inl f"
    using read_record_needs_nonempty_input
      [of sample_tags "[]" "[]" "[]" "[255]" BatchContentClassifier 0 batch_bad_tag]
    by simp_all
  then show ?thesis
    by (simp add: Iterate_def batch_bad_tag_def WriteBatch_of_string_def kHeader_def
        Iterate_loop.simps read_defs dispatch_def classifier_simps Handler_Continue_def
        HAS_PUT_def)
qed

subsection \<open>Lazy content flags on a malformed batch\<close>

text \<open>
  C10: when the flags of a batch are \<open>DEFERRED\<close>, \<open>ComputeContentFlags\<close> runs the
  classifier over the batch and does not look at the status \<open>st\<close> that \<open>Iterate\<close>
  returns: malformed or not, it stores and returns the flags \<open>fl\<close> that the classifier
  has accumulated, which are those of the records \<open>rs\<close> decoded before the first failure
  (none when the buffer is shorter than the header). The query that starts the
  computation answers from \<open>fl\<close>. \<open>fl\<close> has no \<open>DEFERRED\<close> bit, so every later
  \<open>ComputeContentFlags\<close>, \<open>HasPut\<close>, \<open>HasDelete\<close>, \<open>HasSingleDelete\<close> and \<open>HasMerge\<close>
  answers from \<open>fl\<close> whatever bytes \<open>r\<close> the buffer holds.
\<close>

theorem content_flags_from_partial_classification:
  assumes d: "content_flags b AND DEFERRED \<noteq> 0"
    and ra: "read_all T (drop kHeader (rep b)) [] [] [] = (rs, e)"
  defines "fl \<equiv> (if length (rep b) < kHeader then 0
                 else fold (\<lambda>r f. f OR flag_of T (fst r)) rs 0)"
    and "st \<equiv> (if length (rep b) < kHeader then Corruption ''malformed WriteBatch (too small)''
                else case e of
                       Some err \<Rightarrow> err
                     | None \<Rightarrow> if int (num_counted T rs) \<noteq> Count b
                               then Corruption ''WriteBatch has wrong count'' else OK)"
  shows "Iterate T BatchContentClassifier 0 b = Inr (st, fl)
     \<and> ComputeContentFlags T b = Inr (fl, b\<lparr> content_flags := fl \<rparr>)
     \<and> HasPut T b = Inr (fl AND HAS_PUT \<noteq> 0, b\<lparr> content_flags := fl \<rparr>)
     \<and> HasDelete T b = Inr (fl AND HAS_DELETE \<noteq> 0, b\<lparr> content_flags := fl \<rparr>)
     \<and> HasSingleDelete T b = Inr (fl AND HAS_SINGLE_DELETE \<noteq> 0, b\<lparr> content_flags := fl \<rparr>)
     \<and> HasMerge T b = Inr (fl AND HAS_MERGE \<noteq> 0, b\<lparr> content_flags := fl \<rparr>)
     \<and> fl AND DEFERRED = 0
     \<and> (\<forall>r. ComputeContentFlags T (b\<lparr> content_flags := fl, rep := r \<rparr>) =
              Inr (fl, b\<lparr> content_flags := fl, rep := r \<rparr>))
     \<and> (\<forall>r. HasPut T (b\<lparr> content_flags := fl, rep := r \<rparr>) =
              Inr (fl AND HAS_PUT \<noteq> 0, b\<lparr> content_flags := fl, rep := r \<rparr>))
     \<and> (\<forall>r. HasDelete T (b\<lparr> content_flags := fl, rep := r \<rparr>) =
              Inr (fl AND HAS_DELETE \<noteq> 0, b\<lparr> content_flags := fl, rep := r \<rparr>))
     \<and> (\<forall>r. HasSingleDelete T (b\<lparr> content_flags := fl, rep := r \<rparr>) =
              Inr (fl AND HAS_SINGLE_DELETE \<noteq> 0, b\<lparr> content_flags := fl, rep := r \<rparr>))
     \<and> (\<forall>r. HasMerge T (b\<lparr> content_flags := fl, rep := r \<rparr>) =
              Inr (fl AND HAS_MERGE \<noteq> 0, b\<lparr> content_flags := fl, rep := r \<rparr>))"
proof -
  have it: "Iterate T BatchContentClassifier 0 b = Inr (st, fl)"
  proof (cases "length (rep b) < kHeader")
    case True
    then show ?thesis by (simp add: Iterate_def st_def fl_def)
  next
    case False
    then have len: "kHeader \<le> length (rep b)" by simp
    show ?thesis
      using False
      by (cases e)
         (simp_all add: Iterate_runs_to_end [OF runs_to_end_classifier len ra] st_def fl_def
            visit_all_classifier classifier_simps Handler_Continue_def)
  qed
  have nd: "fl AND DEFERRED = 0"
    unfolding fl_def by (simp add: fold_flags_not_DEFERRED)
  have cc: "ComputeContentFlags T b = Inr (fl, b\<lparr> content_flags := fl \<rparr>)"
    using d by (simp add: ComputeContentFlags_def it)
  have again: "ComputeContentFlags T (b\<lparr> content_flags := fl, rep := r \<rparr>) =
      Inr (fl, b\<lparr> content_flags := fl, rep := r \<rparr>)" for r
    using nd by (simp add: ComputeContentFlags_def)
  from it cc nd again show ?thesis
    by (simp add: HasPut_def HasDelete_def HasSingleDelete_def HasMerge_def has_flag_def)
qed

theorem content_flags_from_partial_classification_witness:
  "content_flags batch_bad_tag AND DEFERRED \<noteq> 0
   \<and> read_all sample_tags (drop kHeader (rep batch_bad_tag)) [] [] [] =
        ([(1, 0, [97], [49], [])], Some (Corruption ''unknown WriteBatch tag''))
   \<and> Iterate sample_tags BatchContentClassifier 0 batch_bad_tag =
        Inr (Corruption ''unknown WriteBatch tag'', HAS_PUT)
   \<and> ComputeContentFlags sample_tags batch_bad_tag =
        Inr (HAS_PUT, batch_bad_tag\<lparr> content_flags := HAS_PUT \<rparr>)
   \<and> HasPut sample_tags (batch_bad_tag\<lparr> content_flags := HAS_PUT \<rparr>) =
        Inr (True, batch_bad_tag\<lparr> content_flags := HAS_PUT \<rparr>)
   \<and> HasMerge sample_tags (batch_bad_tag\<lparr> content_flags := HAS_PUT \<rparr>) =
        Inr (False, batch_bad_tag\<lparr> content_flags := HAS_PUT \<rparr>)"
proof -
  have d: "content_flags batch_bad_tag AND DEFERRED \<noteq> 0"
    by (simp add: batch_bad_tag_def WriteBatch_of_string_def DEFERRED_def)
  have ra: "read_all sample_tags (drop kHeader (rep batch_bad_tag)) [] [] [] =
        ([(1, 0, [97], [49], [])], Some (Corruption ''unknown WriteBatch tag''))"
    by (simp add: batch_bad_tag_def WriteBatch_of_string_def kHeader_def read_all.simps read_defs)
  have len: "\<not> length (rep batch_bad_tag) < kHeader"
    by (simp add: batch_bad_tag_def WriteBatch_of_string_def kHeader_def)
  have fl: "fold (\<lambda>r f. f OR flag_of sample_tags (fst r)) [(1, 0, [97], [49], [])] 0 = HAS_PUT"
    by (simp add: flag_of_def sample_tags_def)
  have r: "batch_bad_tag\<lparr> content_flags := HAS_PUT, rep := rep batch_bad_tag \<rparr> =
      batch_bad_tag\<lparr> content_flags := HAS_PUT \<rparr>"
    by simp
  have hp: "HAS_PUT \<noteq> 0" "HAS_PUT AND HAS_MERGE = 0"
    by (simp_all add: HAS_PUT_def HAS_MERGE_def)
  note t = content_flags_from_partial_classification
    [OF d ra, unfolded if_not_P [OF len] option.case fl]
  from t have t1: "Iterate sample_tags BatchContentClassifier 0 batch_bad_tag =
      Inr (Corruption ''unknown WriteBatch tag'', HAS_PUT)"
    by (rule conjunct1)
  from t have t2: "ComputeContentFlags sample_tags batch_bad_tag =
      Inr (HAS_PUT, batch_bad_tag\<lparr> content_flags := HAS_PUT \<rparr>)"
    by (elim conjE)
  from t have t3: "HasPut sample_tags
        (batch_bad_tag\<lparr> content_flags := HAS_PUT, rep := rep batch_bad_tag \<rparr>) =
      Inr (HAS_PUT AND HAS_PUT \<noteq> 0,
        batch_bad_tag\<lparr> content_flags := HAS_PUT, rep := rep batch_bad_tag \<rparr>)"
    by (elim conjE allE)
  from t have t4: "HasMerge sample_tags
        (batch_bad_tag\<lparr> content_flags := HAS_PUT, rep := rep batch_bad_tag \<rparr>) =
      Inr (HAS_PUT AND HAS_MERGE \<noteq> 0,
        batch_bad_tag\<lparr> content_flags := HAS_PUT, rep := rep batch_bad_tag \<rparr>)"
    by (elim conjE allE)
  from d ra t1 t2 t3 [unfolded r] t4 [unfolded r] show ?thesis
    by (simp add: hp)
qed

subsection \<open>Save-points: what the operations between push and rollback do to the buffer\<close>

lemma four_elements:
  assumes "4 \<le> length (p :: 'a list)"
  obtains a b c d xs where "p = a # b # c # d # xs"
proof -
  from assms obtain a p1 where 1: "p = a # p1" by (cases p) auto
  with assms obtain b p2 where 2: "p1 = b # p2" by (cases p1) auto
  with 1 assms obtain c p3 where 3: "p2 = c # p3" by (cases p2) auto
  with 1 2 assms obtain d xs where 4: "p3 = d # xs" by (cases p3) auto
  from 1 2 3 4 that show thesis by simp
qed

lemma EncodeFixed32_DecodeFixed32_take:
  assumes "4 \<le> length p"
  shows "EncodeFixed32 (DecodeFixed32 p) = take 4 p"
proof -
  from assms obtain a b c d xs where "p = a # b # c # d # xs" by (rule four_elements)
  then show ?thesis by (simp add: EncodeFixed32_DecodeFixed32)
qed

lemma SetCount_Count_restores:
  assumes len: "kHeader \<le> length rb"
  shows "take 8 rb @ EncodeFixed32 (word_of_int (sint (DecodeFixed32 (drop 8 rb)))) @ drop 12 rb = rb"
proof -
  have "4 \<le> length (drop 8 rb)" using len by (simp add: kHeader_def)
  then have "EncodeFixed32 (DecodeFixed32 (drop 8 rb)) = take 4 (drop 8 rb)"
    by (rule EncodeFixed32_DecodeFixed32_take)
  moreover have "take 8 rb @ take 4 (drop 8 rb) @ drop 12 rb = rb"
  proof -
    have "take 4 (drop 8 rb) @ drop 12 rb = drop 8 rb"
      using append_take_drop_id [of 4 "drop 8 rb"] by simp
    then show ?thesis by simp
  qed
  ultimately show ?thesis by simp
qed

lemma header_split:
  assumes "kHeader \<le> length rb"
  shows "rb = take 8 rb @ take 4 (drop 8 rb) @ drop 12 rb"
proof -
  have "take 4 (drop 8 rb) @ drop 12 rb = drop 8 rb"
    using append_take_drop_id [of 4 "drop 8 rb"] by simp
  then show ?thesis by simp
qed

text \<open>The buffer has grown from \<open>rb\<close>: same sequence bytes, some count, the old payload, more.\<close>

lemma grown_by_counted_append:
  assumes len: "kHeader \<le> length rb"
    and r: "r = rb \<or> (\<exists>c4 extra. length c4 = 4 \<and> extra \<noteq> [] \<and>
                r = take 8 rb @ c4 @ drop 12 rb @ extra)"
    and e4: "length e4 = 4" and suffix: "suffix \<noteq> []"
  shows "\<exists>c4 extra. length c4 = 4 \<and> extra \<noteq> [] \<and>
           take 8 r @ e4 @ drop 12 r @ suffix = take 8 rb @ c4 @ drop 12 rb @ extra"
  using r
proof
  assume "r = rb"
  with e4 suffix show ?thesis by blast
next
  assume "\<exists>c4 extra. length c4 = 4 \<and> extra \<noteq> [] \<and> r = take 8 rb @ c4 @ drop 12 rb @ extra"
  then obtain c4 extra where c4: "length c4 = 4"
    and r': "r = take 8 rb @ c4 @ drop 12 rb @ extra" by blast
  have l8: "length (take 8 rb) = 8" using len by (simp add: kHeader_def)
  have t: "take 8 r = take 8 rb" unfolding r' using l8 by simp
  have d: "drop 12 r = drop 12 rb @ extra" unfolding r' using l8 c4 by simp
  have "take 8 r @ e4 @ drop 12 r @ suffix = take 8 rb @ e4 @ drop 12 rb @ (extra @ suffix)"
    by (simp add: t d)
  moreover have "extra @ suffix \<noteq> []" using suffix by simp
  ultimately show ?thesis using e4 by blast
qed

lemma grown_by_plain_append:
  assumes len: "kHeader \<le> length rb"
    and r: "r = rb \<or> (\<exists>c4 extra. length c4 = 4 \<and> extra \<noteq> [] \<and>
                r = take 8 rb @ c4 @ drop 12 rb @ extra)"
    and suffix: "suffix \<noteq> []"
  shows "\<exists>c4 extra. length c4 = 4 \<and> extra \<noteq> [] \<and>
           r @ suffix = take 8 rb @ c4 @ drop 12 rb @ extra"
  using r
proof
  assume "r = rb"
  then have "r @ suffix = take 8 rb @ take 4 (drop 8 rb) @ drop 12 rb @ suffix"
    using header_split [OF len] by (metis append.assoc)
  moreover have "length (take 4 (drop 8 rb)) = 4" using len by (simp add: kHeader_def)
  ultimately show ?thesis using suffix by blast
next
  assume "\<exists>c4 extra. length c4 = 4 \<and> extra \<noteq> [] \<and> r = take 8 rb @ c4 @ drop 12 rb @ extra"
  then obtain c4 extra where c4: "length c4 = 4"
    and r': "r = take 8 rb @ c4 @ drop 12 rb @ extra" by blast
  have "r @ suffix = take 8 rb @ c4 @ drop 12 rb @ (extra @ suffix)" by (simp add: r')
  moreover have "extra @ suffix \<noteq> []" using suffix by simp
  ultimately show ?thesis using c4 by blast
qed

lemma varint32_bytes_nonempty: "varint32_bytes n \<noteq> []"
  by (subst varint32_bytes.simps) simp

lemma tag_and_cf_prefix: "tag_and_cf r cf p c = r @ tag_and_cf [] cf p c"
  by (simp add: tag_and_cf_def PutVarint32_def)

lemma PutLengthPrefixedSlice_prefix:
  "PutLengthPrefixedSlice (r @ s) v = r @ PutLengthPrefixedSlice s v"
  by (simp add: PutLengthPrefixedSlice_def PutVarint32_def)

lemma PutLengthPrefixedSliceParts_prefix:
  "PutLengthPrefixedSliceParts (r @ s) v = r @ PutLengthPrefixedSliceParts s v"
  by (simp add: PutLengthPrefixedSliceParts_def PutVarint32_def)

lemma PutLengthPrefixedSlice_nonempty: "PutLengthPrefixedSlice s v \<noteq> []"
  by (simp add: PutLengthPrefixedSlice_def PutVarint32_def varint32_bytes_nonempty)

lemma PutLengthPrefixedSliceParts_nonempty: "PutLengthPrefixedSliceParts s v \<noteq> []"
  by (simp add: PutLengthPrefixedSliceParts_def PutVarint32_def varint32_bytes_nonempty)

text \<open>
  Every append operation that counts its record rewrites the count field and adds
  bytes at the end; it keeps the pointer to the save-points.
\<close>

lemma counted_append_shape:
  assumes "r1 = (take 8 rb @ EncodeFixed32 n @ drop 12 rb) @ t" and "t \<noteq> []"
  shows "\<exists>e4 suffix. length e4 = 4 \<and> suffix \<noteq> [] \<and> r1 = take 8 rb @ e4 @ drop 12 rb @ suffix"
proof -
  have "r1 = take 8 rb @ EncodeFixed32 n @ drop 12 rb @ t" using assms(1) by simp
  moreover have "length (EncodeFixed32 n) = 4" by simp
  ultimately show ?thesis using assms(2) by blast
qed

lemma two_slices_append:
  "PutLengthPrefixedSlice (PutLengthPrefixedSlice (tag_and_cf r cf p c) k) v =
     r @ PutLengthPrefixedSlice (PutLengthPrefixedSlice (tag_and_cf [] cf p c) k) v"
  by (subst tag_and_cf_prefix) (simp only: PutLengthPrefixedSlice_prefix)

lemma one_slice_append:
  "PutLengthPrefixedSlice (tag_and_cf r cf p c) k =
     r @ PutLengthPrefixedSlice (tag_and_cf [] cf p c) k"
  by (subst tag_and_cf_prefix) (simp only: PutLengthPrefixedSlice_prefix)

lemma two_parts_append:
  "PutLengthPrefixedSliceParts (PutLengthPrefixedSliceParts (tag_and_cf r cf p c) k) v =
     r @ PutLengthPrefixedSliceParts (PutLengthPrefixedSliceParts (tag_and_cf [] cf p c) k) v"
  by (subst tag_and_cf_prefix) (simp only: PutLengthPrefixedSliceParts_prefix)

lemma one_part_append:
  "PutLengthPrefixedSliceParts (tag_and_cf r cf p c) k =
     r @ PutLengthPrefixedSliceParts (tag_and_cf [] cf p c) k"
  by (subst tag_and_cf_prefix) (simp only: PutLengthPrefixedSliceParts_prefix)

lemma Put_shape:
  "save_points (Put T b cf k v) = save_points b \<and>
   (\<exists>e4 suffix. length e4 = 4 \<and> suffix \<noteq> [] \<and>
      rep (Put T b cf k v) = take 8 (rep b) @ e4 @ drop 12 (rep b) @ suffix)"
proof
  show "save_points (Put T b cf k v) = save_points b"
    by (simp add: Put_def Let_def set_flag_def SetCount_def)
  let ?R = "take 8 (rep b) @ EncodeFixed32 (word_of_int (Count b + 1)) @ drop 12 (rep b)"
  have "rep (Put T b cf k v) = PutLengthPrefixedSlice (PutLengthPrefixedSlice (tag_and_cf ?R cf (kTypeValue T) (kTypeColumnFamilyValue T)) k) v"
    by (simp add: Put_def Let_def set_flag_def SetCount_def)
  also have "\<dots> = ?R @ PutLengthPrefixedSlice (PutLengthPrefixedSlice (tag_and_cf [] cf (kTypeValue T) (kTypeColumnFamilyValue T)) k) v"
    by (rule two_slices_append)
  finally show "\<exists>e4 suffix. length e4 = 4 \<and> suffix \<noteq> [] \<and>
      rep (Put T b cf k v) = take 8 (rep b) @ e4 @ drop 12 (rep b) @ suffix"
    by (rule counted_append_shape) (rule PutLengthPrefixedSlice_nonempty)
qed

lemma PutParts_shape:
  "save_points (PutParts T b cf k v) = save_points b \<and>
   (\<exists>e4 suffix. length e4 = 4 \<and> suffix \<noteq> [] \<and>
      rep (PutParts T b cf k v) = take 8 (rep b) @ e4 @ drop 12 (rep b) @ suffix)"
proof
  show "save_points (PutParts T b cf k v) = save_points b"
    by (simp add: PutParts_def Let_def set_flag_def SetCount_def)
  let ?R = "take 8 (rep b) @ EncodeFixed32 (word_of_int (Count b + 1)) @ drop 12 (rep b)"
  have "rep (PutParts T b cf k v) = PutLengthPrefixedSliceParts (PutLengthPrefixedSliceParts (tag_and_cf ?R cf (kTypeValue T) (kTypeColumnFamilyValue T)) k) v"
    by (simp add: PutParts_def Let_def set_flag_def SetCount_def)
  also have "\<dots> = ?R @ PutLengthPrefixedSliceParts (PutLengthPrefixedSliceParts (tag_and_cf [] cf (kTypeValue T) (kTypeColumnFamilyValue T)) k) v"
    by (rule two_parts_append)
  finally show "\<exists>e4 suffix. length e4 = 4 \<and> suffix \<noteq> [] \<and>
      rep (PutParts T b cf k v) = take 8 (rep b) @ e4 @ drop 12 (rep b) @ suffix"
    by (rule counted_append_shape) (rule PutLengthPrefixedSliceParts_nonempty)
qed

lemma Delete_shape:
  "save_points (Delete T b cf k) = save_points b \<and>
   (\<exists>e4 suffix. length e4 = 4 \<and> suffix \<noteq> [] \<and>
      rep (Delete T b cf k) = take 8 (rep b) @ e4 @ drop 12 (rep b) @ suffix)"
proof
  show "save_points (Delete T b cf k) = save_points b"
    by (simp add: Delete_def Let_def set_flag_def SetCount_def)
  let ?R = "take 8 (rep b) @ EncodeFixed32 (word_of_int (Count b + 1)) @ drop 12 (rep b)"
  have "rep (Delete T b cf k) = PutLengthPrefixedSlice (tag_and_cf ?R cf (kTypeDeletion T) (kTypeColumnFamilyDeletion T)) k"
    by (simp add: Delete_def Let_def set_flag_def SetCount_def)
  also have "\<dots> = ?R @ PutLengthPrefixedSlice (tag_and_cf [] cf (kTypeDeletion T) (kTypeColumnFamilyDeletion T)) k"
    by (rule one_slice_append)
  finally show "\<exists>e4 suffix. length e4 = 4 \<and> suffix \<noteq> [] \<and>
      rep (Delete T b cf k) = take 8 (rep b) @ e4 @ drop 12 (rep b) @ suffix"
    by (rule counted_append_shape) (rule PutLengthPrefixedSlice_nonempty)
qed

lemma DeleteParts_shape:
  "save_points (DeleteParts T b cf k) = save_points b \<and>
   (\<exists>e4 suffix. length e4 = 4 \<and> suffix \<noteq> [] \<and>
      rep (DeleteParts T b cf k) = take 8 (rep b) @ e4 @ drop 12 (rep b) @ suffix)"
proof
  show "save_points (DeleteParts T b cf k) = save_points b"
    by (simp add: DeleteParts_def Let_def set_flag_def SetCount_def)
  let ?R = "take 8 (rep b) @ EncodeFixed32 (word_of_int (Count b + 1)) @ drop 12 (rep b)"
  have "rep (DeleteParts T b cf k) = PutLengthPrefixedSliceParts (tag_and_cf ?R cf (kTypeDeletion T) (kTypeColumnFamilyDeletion T)) k"
    by (simp add: DeleteParts_def Let_def set_flag_def SetCount_def)
  also have "\<dots> = ?R @ PutLengthPrefixedSliceParts (tag_and_cf [] cf (kTypeDeletion T) (kTypeColumnFamilyDeletion T)) k"
    by (rule one_part_append)
  finally show "\<exists>e4 suffix. length e4 = 4 \<and> suffix \<noteq> [] \<and>
      rep (DeleteParts T b cf k) = take 8 (rep b) @ e4 @ drop 12 (rep b) @ suffix"
    by (rule counted_append_shape) (rule PutLengthPrefixedSliceParts_nonempty)
qed

lemma SingleDelete_shape:
  "save_points (SingleDelete T b cf k) = save_points b \<and>
   (\<exists>e4 suffix. length e4 = 4 \<and> suffix \<noteq> [] \<and>
      rep (SingleDelete T b cf k) = take 8 (rep b) @ e4 @ drop 12 (rep b) @ suffix)"
proof
  show "save_points (SingleDelete T b cf k) = save_points b"
    by (simp add: SingleDelete_def Let_def set_flag_def SetCount_def)
  let ?R = "take 8 (rep b) @ EncodeFixed32 (word_of_int (Count b + 1)) @ drop 12 (rep b)"
  have "rep (SingleDelete T b cf k) = PutLengthPrefixedSlice (tag_and_cf ?R cf (kTypeSingleDeletion T) (kTypeColumnFamilySingleDeletion T)) k"
    by (simp add: SingleDelete_def Let_def set_flag_def SetCount_def)
  also have "\<dots> = ?R @ PutLengthPrefixedSlice (tag_and_cf [] cf (kTypeSingleDeletion T) (kTypeColumnFamilySingleDeletion T)) k"
    by (rule one_slice_append)
  finally show "\<exists>e4 suffix. length e4 = 4 \<and> suffix \<noteq> [] \<and>
      rep (SingleDelete T b cf k) = take 8 (rep b) @ e4 @ drop 12 (rep b) @ suffix"
    by (rule counted_append_shape) (rule PutLengthPrefixedSlice_nonempty)
qed

lemma SingleDeleteParts_shape:
  "save_points (SingleDeleteParts T b cf k) = save_points b \<and>
   (\<exists>e4 suffix. length e4 = 4 \<and> suffix \<noteq> [] \<and>
      rep (SingleDeleteParts T b cf k) = take 8 (rep b) @ e4 @ drop 12 (rep b) @ suffix)"
proof
  show "save_points (SingleDeleteParts T b cf k) = save_points b"
    by (simp add: SingleDeleteParts_def Let_def set_flag_def SetCount_def)
  let ?R = "take 8 (rep b) @ EncodeFixed32 (word_of_int (Count b + 1)) @ drop 12 (rep b)"
  have "rep (SingleDeleteParts T b cf k) = PutLengthPrefixedSliceParts (tag_and_cf ?R cf (kTypeSingleDeletion T) (kTypeColumnFamilySingleDeletion T)) k"
    by (simp add: SingleDeleteParts_def Let_def set_flag_def SetCount_def)
  also have "\<dots> = ?R @ PutLengthPrefixedSliceParts (tag_and_cf [] cf (kTypeSingleDeletion T) (kTypeColumnFamilySingleDeletion T)) k"
    by (rule one_part_append)
  finally show "\<exists>e4 suffix. length e4 = 4 \<and> suffix \<noteq> [] \<and>
      rep (SingleDeleteParts T b cf k) = take 8 (rep b) @ e4 @ drop 12 (rep b) @ suffix"
    by (rule counted_append_shape) (rule PutLengthPrefixedSliceParts_nonempty)
qed

lemma Merge_shape:
  "save_points (Merge T b cf k v) = save_points b \<and>
   (\<exists>e4 suffix. length e4 = 4 \<and> suffix \<noteq> [] \<and>
      rep (Merge T b cf k v) = take 8 (rep b) @ e4 @ drop 12 (rep b) @ suffix)"
proof
  show "save_points (Merge T b cf k v) = save_points b"
    by (simp add: Merge_def Let_def set_flag_def SetCount_def)
  let ?R = "take 8 (rep b) @ EncodeFixed32 (word_of_int (Count b + 1)) @ drop 12 (rep b)"
  have "rep (Merge T b cf k v) = PutLengthPrefixedSlice (PutLengthPrefixedSlice (tag_and_cf ?R cf (kTypeMerge T) (kTypeColumnFamilyMerge T)) k) v"
    by (simp add: Merge_def Let_def set_flag_def SetCount_def)
  also have "\<dots> = ?R @ PutLengthPrefixedSlice (PutLengthPrefixedSlice (tag_and_cf [] cf (kTypeMerge T) (kTypeColumnFamilyMerge T)) k) v"
    by (rule two_slices_append)
  finally show "\<exists>e4 suffix. length e4 = 4 \<and> suffix \<noteq> [] \<and>
      rep (Merge T b cf k v) = take 8 (rep b) @ e4 @ drop 12 (rep b) @ suffix"
    by (rule counted_append_shape) (rule PutLengthPrefixedSlice_nonempty)
qed

lemma MergeParts_shape:
  "save_points (MergeParts T b cf k v) = save_points b \<and>
   (\<exists>e4 suffix. length e4 = 4 \<and> suffix \<noteq> [] \<and>
      rep (MergeParts T b cf k v) = take 8 (rep b) @ e4 @ drop 12 (rep b) @ suffix)"
proof
  show "save_points (MergeParts T b cf k v) = save_points b"
    by (simp add: MergeParts_def Let_def set_flag_def SetCount_def)
  let ?R = "take 8 (rep b) @ EncodeFixed32 (word_of_int (Count b + 1)) @ drop 12 (rep b)"
  have "rep (MergeParts T b cf k v) = PutLengthPrefixedSliceParts (PutLengthPrefixedSliceParts (tag_and_cf ?R cf (kTypeMerge T) (kTypeColumnFamilyMerge T)) k) v"
    by (simp add: MergeParts_def Let_def set_flag_def SetCount_def)
  also have "\<dots> = ?R @ PutLengthPrefixedSliceParts (PutLengthPrefixedSliceParts (tag_and_cf [] cf (kTypeMerge T) (kTypeColumnFamilyMerge T)) k) v"
    by (rule two_parts_append)
  finally show "\<exists>e4 suffix. length e4 = 4 \<and> suffix \<noteq> [] \<and>
      rep (MergeParts T b cf k v) = take 8 (rep b) @ e4 @ drop 12 (rep b) @ suffix"
    by (rule counted_append_shape) (rule PutLengthPrefixedSliceParts_nonempty)
qed

lemma PutLogData_shape:
  "save_points (PutLogData T b blob) = save_points b \<and>
   (\<exists>suffix. suffix \<noteq> [] \<and> rep (PutLogData T b blob) = rep b @ suffix)"
  by (simp add: PutLogData_def PutLengthPrefixedSlice_def PutVarint32_def)

lemma ComputeContentFlags_shape:
  "\<exists>rv b1. ComputeContentFlags T b = Inr (rv, b1) \<and> rep b1 = rep b
     \<and> save_points b1 = save_points b
     \<and> (content_flags b AND DEFERRED = 0 \<longrightarrow> b1 = b)"
proof (cases "content_flags b AND DEFERRED = 0")
  case True
  then show ?thesis by (simp add: ComputeContentFlags_def)
next
  case False
  obtain st fl where "Iterate T BatchContentClassifier 0 b = Inr (st, fl)"
    using Iterate_no_fault [of T BatchContentClassifier 0 b]
    by (cases "Iterate T BatchContentClassifier 0 b") auto
  with False show ?thesis by (simp add: ComputeContentFlags_def)
qed

lemma query_shape:
  "\<exists>b1. after_query (has_flag T f b) = Inr b1 \<and> rep b1 = rep b
     \<and> save_points b1 = save_points b
     \<and> (content_flags b AND DEFERRED = 0 \<longrightarrow> b1 = b)"
proof -
  obtain rv b1 where "ComputeContentFlags T b = Inr (rv, b1)" "rep b1 = rep b"
    "save_points b1 = save_points b" "content_flags b AND DEFERRED = 0 \<longrightarrow> b1 = b"
    using ComputeContentFlags_shape by blast
  then show ?thesis by (simp add: after_query_def has_flag_def)
qed

lemma apply_op_shape:
  "\<exists>b1. apply_op T x b = Inr b1 \<and> save_points b1 = save_points b \<and>
     ((rep b1 = rep b \<and> (content_flags b AND DEFERRED = 0 \<longrightarrow> b1 = b))
      \<or> (\<exists>e4 suffix. length e4 = 4 \<and> suffix \<noteq> [] \<and>
            rep b1 = take 8 (rep b) @ e4 @ drop 12 (rep b) @ suffix)
      \<or> (\<exists>suffix. suffix \<noteq> [] \<and> rep b1 = rep b @ suffix))"
proof (cases x)
  case (OpPut cf k v)
  then show ?thesis using Put_shape [of T b cf k v] by simp
next
  case (OpPutParts cf k v)
  then show ?thesis using PutParts_shape [of T b cf k v] by simp
next
  case (OpDelete cf k)
  then show ?thesis using Delete_shape [of T b cf k] by simp
next
  case (OpDeleteParts cf k)
  then show ?thesis using DeleteParts_shape [of T b cf k] by simp
next
  case (OpSingleDelete cf k)
  then show ?thesis using SingleDelete_shape [of T b cf k] by simp
next
  case (OpSingleDeleteParts cf k)
  then show ?thesis using SingleDeleteParts_shape [of T b cf k] by simp
next
  case (OpMerge cf k v)
  then show ?thesis using Merge_shape [of T b cf k v] by simp
next
  case (OpMergeParts cf k v)
  then show ?thesis using MergeParts_shape [of T b cf k v] by simp
next
  case (OpPutLogData blob)
  then show ?thesis using PutLogData_shape [of T b blob] by simp
next
  case OpHasPut
  then show ?thesis using query_shape [of T HAS_PUT b] by (auto simp: HasPut_def)
next
  case OpHasDelete
  then show ?thesis using query_shape [of T HAS_DELETE b] by (auto simp: HasDelete_def)
next
  case OpHasSingleDelete
  then show ?thesis
    using query_shape [of T HAS_SINGLE_DELETE b] by (auto simp: HasSingleDelete_def)
next
  case OpHasMerge
  then show ?thesis using query_shape [of T HAS_MERGE b] by (auto simp: HasMerge_def)
qed

lemma grown_length:
  assumes "kHeader \<le> length rb" and "length c4 = 4"
  shows "length (take 8 rb @ c4 @ drop 12 rb @ extra) = length rb + length extra"
  using assms by (simp add: kHeader_def)

lemma run_ops_invariant:
  assumes len: "kHeader \<le> length rb"
    and inv: "(rep b = rb \<and> (F AND DEFERRED = 0 \<longrightarrow> content_flags b = F))
      \<or> (\<exists>c4 extra. length c4 = 4 \<and> extra \<noteq> [] \<and> rep b = take 8 rb @ c4 @ drop 12 rb @ extra)"
  shows "\<exists>b2. run_ops T ops b = Inr b2 \<and> save_points b2 = save_points b \<and>
     ((rep b2 = rb \<and> (F AND DEFERRED = 0 \<longrightarrow> content_flags b2 = F))
      \<or> (\<exists>c4 extra. length c4 = 4 \<and> extra \<noteq> [] \<and>
            rep b2 = take 8 rb @ c4 @ drop 12 rb @ extra))"
  using inv
proof (induction ops arbitrary: b)
  case Nil
  then show ?case by simp
next
  case (Cons x xs)
  let ?grown = "\<lambda>r. \<exists>c4 extra. length c4 = 4 \<and> extra \<noteq> [] \<and> r = take 8 rb @ c4 @ drop 12 rb @ extra"
  from Cons.prems have r: "rep b = rb \<or> ?grown (rep b)" by blast
  obtain b1 where b1: "apply_op T x b = Inr b1" and sp: "save_points b1 = save_points b"
    and shape: "(rep b1 = rep b \<and> (content_flags b AND DEFERRED = 0 \<longrightarrow> b1 = b))
      \<or> (\<exists>e4 suffix. length e4 = 4 \<and> suffix \<noteq> [] \<and>
            rep b1 = take 8 (rep b) @ e4 @ drop 12 (rep b) @ suffix)
      \<or> (\<exists>suffix. suffix \<noteq> [] \<and> rep b1 = rep b @ suffix)"
    using apply_op_shape [of T x b] by blast
  have inv1: "(rep b1 = rb \<and> (F AND DEFERRED = 0 \<longrightarrow> content_flags b1 = F)) \<or> ?grown (rep b1)"
    using shape
  proof (elim disjE)
    assume q: "rep b1 = rep b \<and> (content_flags b AND DEFERRED = 0 \<longrightarrow> b1 = b)"
    from Cons.prems show ?thesis
    proof
      assume "rep b = rb \<and> (F AND DEFERRED = 0 \<longrightarrow> content_flags b = F)"
      with q show ?thesis by auto
    next
      assume "?grown (rep b)"
      with q show ?thesis by simp
    qed
  next
    assume "\<exists>e4 suffix. length e4 = 4 \<and> suffix \<noteq> [] \<and>
            rep b1 = take 8 (rep b) @ e4 @ drop 12 (rep b) @ suffix"
    then obtain e4 suffix where e: "length e4 = 4" "suffix \<noteq> []"
      and rb1: "rep b1 = take 8 (rep b) @ e4 @ drop 12 (rep b) @ suffix" by blast
    from grown_by_counted_append [OF len r e] have "?grown (rep b1)"
      unfolding rb1 .
    then show ?thesis ..
  next
    assume "\<exists>suffix. suffix \<noteq> [] \<and> rep b1 = rep b @ suffix"
    then obtain suffix where e: "suffix \<noteq> []" and rb1: "rep b1 = rep b @ suffix" by blast
    from grown_by_plain_append [OF len r e] have "?grown (rep b1)"
      unfolding rb1 .
    then show ?thesis ..
  qed
  from Cons.IH [OF inv1] b1 sp show ?case by simp
qed

lemma SetSavePoint_facts:
  assumes "valid_ptr h b"
  shows "\<exists>a. save_points (snd (SetSavePoint h b)) = Some a
     \<and> a < length (fst (SetSavePoint h b))
     \<and> fst (SetSavePoint h b) ! a =
         \<lparr> sp_size = length (rep b), sp_count = Count b, sp_content_flags = content_flags b \<rparr>
           # stack_of h b
     \<and> rep (snd (SetSavePoint h b)) = rep b
     \<and> content_flags (snd (SetSavePoint h b)) = content_flags b"
proof (cases "save_points b")
  case None
  then show ?thesis
    by (simp add: SetSavePoint_def stack_of_def GetDataSize_def Count_def Let_def nth_append)
next
  case (Some a)
  with assms have "a < length h" by (simp add: valid_ptr_def)
  with Some show ?thesis
    by (simp add: SetSavePoint_def stack_of_def GetDataSize_def Count_def Let_def)
qed

lemma batch_A_save_point:
  "SetSavePoint [] batch_A =
     ([[\<lparr> sp_size = 17, sp_count = 1, sp_content_flags = 2 \<rparr>]],
      \<lparr> save_points = Some 0, content_flags = 2,
        rep = [0, 0, 0, 0, 0, 0, 0, 0, 1, 0, 0, 0, 1, 1, 97, 1, 49] \<rparr>)"
  by (simp add: batch_A_eq SetSavePoint_def GetDataSize_def Count_def DecodeFixed32_def Let_def)

lemma batch_A_then_put_delete:
  "run_ops sample_tags [OpPut 0 [98] [50], OpDelete 0 [99]] (snd (SetSavePoint [] batch_A)) =
     Inr \<lparr> save_points = Some 0, content_flags = 6,
           rep = [0, 0, 0, 0, 0, 0, 0, 0, 3, 0, 0, 0, 1, 1, 97, 1, 49,
                  1, 1, 98, 1, 50, 0, 1, 99] \<rparr>"
  by (simp add: batch_A_save_point eval_defs)

lemma batch_deferred_put_save_point:
  "SetSavePoint [] batch_deferred_put =
     ([[\<lparr> sp_size = 17, sp_count = 1, sp_content_flags = 1 \<rparr>]],
      \<lparr> save_points = Some 0, content_flags = 1,
        rep = [0, 0, 0, 0, 0, 0, 0, 0, 1, 0, 0, 0, 1, 1, 97, 1, 49] \<rparr>)"
  by (simp add: batch_deferred_put_def WriteBatch_of_string_def batch_A_eq SetSavePoint_def
      GetDataSize_def Count_def DecodeFixed32_def Let_def DEFERRED_def)

lemma batch_seq7_sp1:
  "SetSavePoint [] batch_seq7 =
    ([[\<lparr> sp_size = 12, sp_count = 0, sp_content_flags = 1 \<rparr>]],
     \<lparr> save_points = Some 0, content_flags = 1, rep = [7, 0, 0, 0, 0, 0, 0, 0, 0, 0, 0, 0] \<rparr>)"
  by (simp add: SetSavePoint_def batch_seq7_def WriteBatch_of_string_def GetDataSize_def
      Count_def DecodeFixed32_def DEFERRED_def Let_def)

lemma seq7_heap_eq:
  "seq7_heap = [[\<lparr> sp_size = 12, sp_count = 0, sp_content_flags = 1 \<rparr>,
                 \<lparr> sp_size = 12, sp_count = 0, sp_content_flags = 1 \<rparr>]]"
  by (simp add: seq7_heap_def batch_seq7_sp1)
     (simp add: SetSavePoint_def GetDataSize_def Count_def DecodeFixed32_def Let_def)

lemma seq7_after_put_eq:
  "seq7_after_put = \<lparr> save_points = Some 0, content_flags = 3,
     rep = [7, 0, 0, 0, 0, 0, 0, 0, 1, 0, 0, 0, 1, 1, 97, 1, 49] \<rparr>"
  by (simp add: seq7_after_put_def batch_seq7_sp1)
     (simp add: SetSavePoint_def GetDataSize_def Let_def eval_defs)

lemma original_eq:
  "original_heap = [[\<lparr> sp_size = 17, sp_count = 1, sp_content_flags = 2 \<rparr>]]"
  "original = \<lparr> save_points = Some 0, content_flags = 2,
     rep = [0,0,0,0,0,0,0,0, 1,0,0,0, 1, 1, 97, 1, 49] \<rparr>"
  by (simp_all add: original_heap_def original_def batch_A_eq SetSavePoint_def GetDataSize_def
      Count_def DecodeFixed32_def Let_def)

subsection \<open>Rollback to a save-point\<close>

text \<open>
  C3: take a batch \<open>b\<close> of at least 12 bytes, set a save-point, run any sequence of
  append operations and content-flag queries, and roll back. The operations never fail,
  the rollback returns OK, and afterwards the buffer is byte for byte the buffer at the
  push, so is the count, and the save-point stack is the one before the push. The
  content-flag word is the one at the push whenever the buffer has grown since, and
  whenever it had no \<open>DEFERRED\<close> bit at the push. When the buffer has the length it had
  at the push, the rollback leaves the batch as it finds it: a \<open>DEFERRED\<close> word that a
  query has replaced in between stays replaced.
\<close>

theorem rollback_restores_save_point:
  assumes len: "kHeader \<le> length (rep b)" and valid: "valid_ptr h b"
  shows "\<exists>b2 h3 b3.
      run_ops T ops (snd (SetSavePoint h b)) = Inr b2
    \<and> RollbackToSavePoint (fst (SetSavePoint h b)) b2 = (OK, h3, b3)
    \<and> rep b3 = rep b \<and> Count b3 = Count b
    \<and> stack_of h3 b3 = stack_of h b
    \<and> (length (rep b2) \<noteq> length (rep b) \<longrightarrow> content_flags b3 = content_flags b)
    \<and> (content_flags b AND DEFERRED = 0 \<longrightarrow> content_flags b3 = content_flags b)
    \<and> (length (rep b2) = length (rep b) \<longrightarrow> b3 = b2)"
proof -
  let ?h1 = "fst (SetSavePoint h b)" and ?b1 = "snd (SetSavePoint h b)"
  let ?sp = "\<lparr> sp_size = length (rep b), sp_count = Count b,
               sp_content_flags = content_flags b \<rparr>"
  from SetSavePoint_facts [OF valid] obtain a where a: "save_points ?b1 = Some a"
    and al: "a < length ?h1" and top: "?h1 ! a = ?sp # stack_of h b"
    and r1: "rep ?b1 = rep b" and f1: "content_flags ?b1 = content_flags b" by blast
  have "(rep ?b1 = rep b \<and> (content_flags b AND DEFERRED = 0 \<longrightarrow> content_flags ?b1 = content_flags b))
      \<or> (\<exists>c4 extra. length c4 = 4 \<and> extra \<noteq> [] \<and>
            rep ?b1 = take 8 (rep b) @ c4 @ drop 12 (rep b) @ extra)"
    using r1 f1 by simp
  from run_ops_invariant [OF len this, of T ops]
  obtain b2 where run: "run_ops T ops ?b1 = Inr b2" and sp2: "save_points b2 = Some a"
    and inv: "(rep b2 = rep b \<and> (content_flags b AND DEFERRED = 0 \<longrightarrow> content_flags b2 = content_flags b))
      \<or> (\<exists>c4 extra. length c4 = 4 \<and> extra \<noteq> [] \<and>
            rep b2 = take 8 (rep b) @ c4 @ drop 12 (rep b) @ extra)"
    using a by auto
  let ?h3 = "?h1[a := stack_of h b]"
  have st3: "\<And>x. save_points x = Some a \<Longrightarrow> stack_of ?h3 x = stack_of h b"
    using al by (simp add: stack_of_def)
  from inv show ?thesis
  proof
    assume same: "rep b2 = rep b \<and>
      (content_flags b AND DEFERRED = 0 \<longrightarrow> content_flags b2 = content_flags b)"
    have rb: "RollbackToSavePoint ?h1 b2 = (OK, ?h3, b2)"
      using same by (simp add: RollbackToSavePoint_def sp2 top Let_def)
    have "Count b2 = Count b" using same by (simp add: Count_def)
    with run rb same st3 [OF sp2] show ?thesis by auto
  next
    assume "\<exists>c4 extra. length c4 = 4 \<and> extra \<noteq> [] \<and>
            rep b2 = take 8 (rep b) @ c4 @ drop 12 (rep b) @ extra"
    then obtain c4 extra where c4: "length c4 = 4" and extra: "extra \<noteq> []"
      and r2: "rep b2 = take 8 (rep b) @ c4 @ drop 12 (rep b) @ extra" by blast
    have l2: "length (rep b2) = length (rep b) + length extra"
      unfolding r2 using len c4 by (rule grown_length)
    with extra have ne: "length (rep b) \<noteq> length (rep b2)" by simp
    have nz: "length (rep b) \<noteq> 0" using len by (auto simp: kHeader_def)
    have l8: "length (take 8 (rep b)) = 8" using len by (simp add: kHeader_def)
    have rs: "resize (rep b2) (length (rep b)) = take 8 (rep b) @ c4 @ drop 12 (rep b)"
    proof -
      have "length (take 8 (rep b) @ c4 @ drop 12 (rep b)) = length (rep b)"
        using len c4 by (simp add: kHeader_def)
      then have "take (length (rep b)) ((take 8 (rep b) @ c4 @ drop 12 (rep b)) @ extra)
          = take 8 (rep b) @ c4 @ drop 12 (rep b)"
        by (metis append_eq_conv_conj)
      with l2 show ?thesis by (simp add: resize_def r2)
    qed
    let ?b3 = "(SetCount (b2\<lparr> rep := resize (rep b2) (length (rep b)) \<rparr>) (Count b))
                 \<lparr> content_flags := content_flags b \<rparr>"
    have rb: "RollbackToSavePoint ?h1 b2 = (OK, ?h3, ?b3)"
      using ne nz by (simp add: RollbackToSavePoint_def sp2 top Let_def)
    have rep3: "rep ?b3 = rep b"
    proof -
      have "rep ?b3 = take 8 (rep b) @ EncodeFixed32 (word_of_int (Count b)) @ drop 12 (rep b)"
        using l8 c4 by (simp add: SetCount_def rs)
      also have "\<dots> = rep b"
        unfolding Count_def by (rule SetCount_Count_restores [OF len])
      finally show ?thesis .
    qed
    have c3: "Count ?b3 = Count b" using rep3 by (simp add: Count_def)
    have sp3: "save_points ?b3 = Some a" by (simp add: SetCount_def sp2)
    have f3: "content_flags ?b3 = content_flags b" by simp
    from run rb rep3 c3 st3 [OF sp3] f3 ne show ?thesis
      by (intro exI [of _ b2] exI [of _ ?h3] exI [of _ ?b3]) simp
  qed
qed

theorem rollback_restores_save_point_witness:
  "kHeader \<le> length (rep batch_A) \<and> valid_ptr [] batch_A
   \<and> run_ops sample_tags [OpPut 0 [98] [50], OpDelete 0 [99]] (snd (SetSavePoint [] batch_A)) =
       Inr \<lparr> save_points = Some 0, content_flags = HAS_PUT OR HAS_DELETE,
             rep = [0, 0, 0, 0, 0, 0, 0, 0, 3, 0, 0, 0, 1, 1, 97, 1, 49,
                    1, 1, 98, 1, 50, 0, 1, 99] \<rparr>
   \<and> RollbackToSavePoint (fst (SetSavePoint [] batch_A))
        \<lparr> save_points = Some 0, content_flags = HAS_PUT OR HAS_DELETE,
          rep = [0, 0, 0, 0, 0, 0, 0, 0, 3, 0, 0, 0, 1, 1, 97, 1, 49,
                 1, 1, 98, 1, 50, 0, 1, 99] \<rparr> =
       (OK, [[]], \<lparr> save_points = Some 0, content_flags = HAS_PUT, rep = rep batch_A \<rparr>)
   \<and> Count \<lparr> save_points = Some 0, content_flags = HAS_PUT, rep = rep batch_A \<rparr> = 1"
proof -
  let ?X = "\<lparr> save_points = Some 0, content_flags = 6,
           rep = [0, 0, 0, 0, 0, 0, 0, 0, 3, 0, 0, 0, 1, 1, 97, 1, 49,
                  1, 1, 98, 1, 50, 0, 1, 99] \<rparr> :: WriteBatch"
  have len: "kHeader \<le> length (rep batch_A)" by (simp add: batch_A_eq kHeader_def)
  have valid: "valid_ptr [] batch_A" by (simp add: batch_A_eq valid_ptr_def)
  from rollback_restores_save_point
    [OF len valid, of sample_tags "[OpPut 0 [98] [50], OpDelete 0 [99]]"]
  obtain b2 h3 b3 where
    run: "run_ops sample_tags [OpPut 0 [98] [50], OpDelete 0 [99]]
            (snd (SetSavePoint [] batch_A)) = Inr b2"
    and rb: "RollbackToSavePoint (fst (SetSavePoint [] batch_A)) b2 = (OK, h3, b3)"
    and rep3: "rep b3 = rep batch_A" and c3: "Count b3 = Count batch_A"
    and st3: "stack_of h3 b3 = stack_of [] batch_A"
    and f3: "length (rep b2) \<noteq> length (rep batch_A) \<longrightarrow> content_flags b3 = content_flags batch_A"
    by blast
  from run have b2: "b2 = ?X" unfolding batch_A_then_put_delete by simp
  have fl: "HAS_PUT OR HAS_DELETE = (6 :: 32 word)" "HAS_PUT = (2 :: 32 word)"
    by (simp_all add: HAS_PUT_def HAS_DELETE_def)
  have ev: "RollbackToSavePoint (fst (SetSavePoint [] batch_A)) ?X =
      (OK, [[]], \<lparr> save_points = Some 0, content_flags = 2,
         rep = [0, 0, 0, 0, 0, 0, 0, 0, 1, 0, 0, 0, 1, 1, 97, 1, 49] \<rparr>)"
    by (simp add: batch_A_save_point RollbackToSavePoint_def Let_def resize_def SetCount_def
        EncodeFixed32_def)
  from rb have b3: "b3 = \<lparr> save_points = Some 0, content_flags = HAS_PUT, rep = rep batch_A \<rparr>"
    unfolding b2 ev by (simp add: batch_A_eq fl)
  have "Count batch_A = 1" by (simp add: batch_A_eq Count_def DecodeFixed32_def)
  with c3 have c: "Count \<lparr> save_points = Some 0, content_flags = HAS_PUT, rep = rep batch_A \<rparr> = 1"
    unfolding b3 by simp
  from len valid run [unfolded b2] ev c show ?thesis
    by (simp add: HAS_PUT_def HAS_DELETE_def batch_A_eq)
qed

text \<open>
  The flag word is not always the one at the push. The batch below is adopted from the
  bytes of a well-formed batch of one put, so its flags are \<open>DEFERRED\<close>. After a
  save-point and the query \<open>HasPut\<close>, the flags are \<open>HAS_PUT\<close>; the rollback finds the
  buffer as long as the save-point says and changes nothing.
\<close>

theorem rollback_keeps_computed_flags_counterexample:
  "content_flags batch_deferred_put = DEFERRED
   \<and> run_ops sample_tags [OpHasPut] (snd (SetSavePoint [] batch_deferred_put)) =
       Inr \<lparr> save_points = Some 0, content_flags = HAS_PUT, rep = rep batch_deferred_put \<rparr>
   \<and> RollbackToSavePoint (fst (SetSavePoint [] batch_deferred_put))
        \<lparr> save_points = Some 0, content_flags = HAS_PUT, rep = rep batch_deferred_put \<rparr> =
       (OK, [[]], \<lparr> save_points = Some 0, content_flags = HAS_PUT, rep = rep batch_deferred_put \<rparr>)
   \<and> HAS_PUT \<noteq> DEFERRED"
  by (simp add: batch_deferred_put_save_point,
      simp add: batch_deferred_put_def WriteBatch_of_string_def batch_A_eq HasPut_def
        has_flag_def after_query_def ComputeContentFlags_def Iterate_def kHeader_def
        Iterate_loop.simps read_defs dispatch_def classifier_simps Handler_Continue_def
        Count_def DecodeFixed32_def RollbackToSavePoint_def Let_def
        HAS_PUT_def DEFERRED_def)

subsection \<open>Rollback to a save-point taken on a header-only buffer\<close>

text \<open>
  A rollback to a save-point whose recorded size is 12 is no full clear. On the batch
  adopted from twelve bytes with sequence number 7, after two save-points and one put,
  a clear would leave twelve zero bytes, the flag word 0 and an empty stack; the
  rollback leaves the sequence bytes in the buffer, restores the flag word \<open>DEFERRED\<close>
  recorded at the push, and pops one save-point of the two.
\<close>

theorem rollback_to_header_only_save_point_counterexample:
  "sp_size (hd (stack_of seq7_heap seq7_after_put)) = 12
   \<and> Clear seq7_heap seq7_after_put =
       ([[]], \<lparr> save_points = Some 0, content_flags = 0,
                rep = [0, 0, 0, 0, 0, 0, 0, 0, 0, 0, 0, 0] \<rparr>)
   \<and> RollbackToSavePoint seq7_heap seq7_after_put =
       (OK, [[\<lparr> sp_size = 12, sp_count = 0, sp_content_flags = 1 \<rparr>]],
        \<lparr> save_points = Some 0, content_flags = DEFERRED,
          rep = [7, 0, 0, 0, 0, 0, 0, 0, 0, 0, 0, 0] \<rparr>)
   \<and> DEFERRED \<noteq> 0"
proof -
  have c: "Clear seq7_heap seq7_after_put =
       ([[]], \<lparr> save_points = Some 0, content_flags = 0,
                rep = [0, 0, 0, 0, 0, 0, 0, 0, 0, 0, 0, 0] \<rparr>)"
    by (simp add: seq7_heap_eq seq7_after_put_eq Clear_def resize_empty_kHeader)
  have r: "sp_size (hd (stack_of seq7_heap seq7_after_put)) = 12
   \<and> RollbackToSavePoint seq7_heap seq7_after_put =
       (OK, [[\<lparr> sp_size = 12, sp_count = 0, sp_content_flags = 1 \<rparr>]],
        \<lparr> save_points = Some 0, content_flags = DEFERRED,
          rep = [7, 0, 0, 0, 0, 0, 0, 0, 0, 0, 0, 0] \<rparr>)
   \<and> DEFERRED \<noteq> 0"
    by (simp add: seq7_heap_eq seq7_after_put_eq stack_of_def RollbackToSavePoint_def Let_def
        resize_def SetCount_def EncodeFixed32_def DEFERRED_def)
  from c r show ?thesis by simp
qed

text \<open>
  C4: when the popped save-point has the recorded size 12 (header only) and the batch
  has at least its header, \<open>RollbackToSavePoint\<close> returns OK and pops that one
  save-point; the older ones stay. A buffer that is still 12 bytes long is left as it
  is. A longer buffer is cut back to its header: the eight sequence bytes stay, the
  count field becomes the recorded count, and the content-flag word becomes the recorded
  one, \<open>DEFERRED\<close> bit included.
\<close>

theorem rollback_to_header_only_save_point:
  assumes "save_points b = Some a" and "h ! a = sp # older"
    and "sp_size sp = kHeader" and "kHeader \<le> length (rep b)"
  shows "RollbackToSavePoint h b =
     (OK, h[a := older],
      if length (rep b) = kHeader then b
      else b\<lparr> rep := take 8 (rep b) @ EncodeFixed32 (word_of_int (sp_count sp)),
              content_flags := sp_content_flags sp \<rparr>)"
  using assms
  by (simp add: RollbackToSavePoint_def Let_def resize_def SetCount_def kHeader_def)

theorem rollback_to_header_only_save_point_witness:
  "save_points seq7_after_put = Some 0
   \<and> seq7_heap ! 0 = \<lparr> sp_size = 12, sp_count = 0, sp_content_flags = DEFERRED \<rparr>
        # [\<lparr> sp_size = 12, sp_count = 0, sp_content_flags = DEFERRED \<rparr>]
   \<and> sp_size \<lparr> sp_size = 12, sp_count = 0, sp_content_flags = DEFERRED \<rparr> = kHeader
   \<and> kHeader \<le> length (rep seq7_after_put)
   \<and> length (rep seq7_after_put) = 17
   \<and> RollbackToSavePoint seq7_heap seq7_after_put =
       (OK, [[\<lparr> sp_size = 12, sp_count = 0, sp_content_flags = DEFERRED \<rparr>]],
        \<lparr> save_points = Some 0, content_flags = DEFERRED,
          rep = [7, 0, 0, 0, 0, 0, 0, 0, 0, 0, 0, 0] \<rparr>)"
proof -
  let ?sp = "\<lparr> sp_size = 12, sp_count = 0, sp_content_flags = DEFERRED \<rparr>"
  have a: "save_points seq7_after_put = Some 0" by (simp add: seq7_after_put_eq)
  have b: "seq7_heap ! 0 = ?sp # [?sp]" by (simp add: seq7_heap_eq DEFERRED_def)
  have c: "sp_size ?sp = kHeader" by (simp add: kHeader_def)
  have d: "kHeader \<le> length (rep seq7_after_put)" by (simp add: seq7_after_put_eq kHeader_def)
  have e: "length (rep seq7_after_put) = 17" by (simp add: seq7_after_put_eq)
  have f: "seq7_heap[0 := [?sp]] = [[?sp]]" by (simp add: seq7_heap_eq)
  have g: "seq7_after_put\<lparr> rep := take 8 (rep seq7_after_put) @ EncodeFixed32 (word_of_int (sp_count ?sp)),
              content_flags := sp_content_flags ?sp \<rparr> =
       \<lparr> save_points = Some 0, content_flags = DEFERRED,
          rep = [7, 0, 0, 0, 0, 0, 0, 0, 0, 0, 0, 0] \<rparr>"
    by (simp add: seq7_after_put_eq EncodeFixed32_def)
  have ne: "length (rep seq7_after_put) \<noteq> kHeader" by (simp add: e kHeader_def)
  from rollback_to_header_only_save_point [OF a b c d]
  have "RollbackToSavePoint seq7_heap seq7_after_put = (OK, [[?sp]],
        \<lparr> save_points = Some 0, content_flags = DEFERRED,
          rep = [7, 0, 0, 0, 0, 0, 0, 0, 0, 0, 0, 0] \<rparr>)"
    unfolding f if_not_P [OF ne] g .
  with a b c d e show ?thesis by (intro conjI)
qed

subsection \<open>Copying a batch\<close>

text \<open>
  C5: a copy is meant to be deep over the buffer and over the save-point stack. The copy
  constructor copies the buffer and the pointer \<open>save_points_\<close>: both batches then
  use one stack. After the copy, a save-point set on the copy is on the stack of the
  original, a rollback on the copy pops the save-point of the original, and a clear of
  the copy empties the stack of the original, whose own rollback then finds nothing.
  The buffer of the original is its own.
\<close>

theorem copy_shares_save_points:
  "save_points copied = save_points original
   \<and> rep copied = rep original
   \<and> stack_of original_heap original = [\<lparr> sp_size = 17, sp_count = 1, sp_content_flags = 2 \<rparr>]
   \<and> stack_of (fst (SetSavePoint original_heap copied)) original =
        [\<lparr> sp_size = 17, sp_count = 1, sp_content_flags = 2 \<rparr>,
         \<lparr> sp_size = 17, sp_count = 1, sp_content_flags = 2 \<rparr>]
   \<and> stack_of (fst (snd (RollbackToSavePoint original_heap copied))) original = []
   \<and> stack_of (fst (Clear original_heap copied)) original = []
   \<and> fst (RollbackToSavePoint (fst (Clear original_heap copied)) original) = NotFound"
  by (simp add: copied_def WriteBatch_copy_def original_eq stack_of_def SetSavePoint_def
      GetDataSize_def Count_def DecodeFixed32_def Let_def RollbackToSavePoint_def Clear_def)


end
